theory Spec2Isabelle
  imports Main "HOL-Library.AList" "HOL-Library.Multiset"
begin

section \<open>Data model\<close>

text \<open>
  The dispatcher core of the file-analysis platform: \<^verbatim>\<open>src/dispatching/dispatcher.py\<close>
  (the submission and file drivers) and \<^verbatim>\<open>src/al_core/dispatching/client.py\<close> (the
  facade used by service workers and submitters).

  Identifiers are strings. A Python dict whose order or enumeration matters is an
  association list updated with \<^const>\<open>AList.update\<close> (an existing key keeps its place, a
  new one goes to the end, as in a Python dict); a dict that is only looked up is a map.
  Wall-clock readings (\<^verbatim>\<open>time.time()\<close>) are integers: only their differences are
  compared with the service timeouts.
\<close>

type_synonym sid = string
type_synonym sha256 = string
type_synonym service = string
type_synonym key = string
type_synonym config = string
type_synonym schedule = "service list list"

text \<open>A document of the file collection: \<^verbatim>\<open>file_data.type\<close> is the only field read.\<close>

record file_info =
  fi_sha256 :: sha256
  fi_type :: string

text \<open>
  \<^verbatim>\<open>FileTask\<close> (dispatcher.py, lines 39-45) with the fields
  \<^verbatim>\<open>sid, parent_hash, file_hash, file_type, depth\<close>. The client builds it from
  \<^verbatim>\<open>file_info = self.files.get(...)\<close>, which is \<^verbatim>\<open>None\<close> for an unknown hash, so the
  type is optional. \<^verbatim>\<open>ServiceTask\<close> (lines 48-55) is built in \<^verbatim>\<open>dispatch_file\<close> from the
  fields of the file task and two more, hence the record extension.
\<close>

record file_task =
  task_sid :: sid
  file_hash :: sha256
  file_type :: "string option"
  depth :: int
  parent_hash :: "sha256 option"

record service_task = file_task +
  service_name :: service
  service_config :: string

text \<open>
  A service result, with the attributes the two modules read: \<^verbatim>\<open>score\<close>,
  \<^verbatim>\<open>drop_file\<close>, the hashes of the extracted files and the classification.
\<close>

record result =
  score :: int
  drop_file :: bool
  extracted :: "sha256 list"
  classification :: string

text \<open>An error document; \<^verbatim>\<open>category\<close> is the field the error searches filter on.\<close>

record error =
  err_sid :: sid
  err_sha256 :: sha256
  err_service :: service
  err_status :: string
  err_category :: string

record params =
  quota_item :: bool
  submitter :: string
  ignore_filtering :: bool

record submission =
  sub_sid :: sid
  sub_files :: "sha256 list"
  sub_params :: params
  sub_state :: string

datatype watch_status = START | OK | FAIL | STOP

text \<open>The exceptions that the modelled paths raise.\<close>

datatype py_error = AttributeError | TypeError | NameError

text \<open>What travels on the named queues.\<close>

datatype message =
    Sid sid
  | File file_task
  | Service service_task
  | Watch watch_status "key option"

section \<open>The dispatch table\<close>

text \<open>
  Modelled from the spec: the class \<^verbatim>\<open>DispatchHash\<close> (module \<^verbatim>\<open>dispatch_hash\<close>) is
  imported by both source files and is not among them. The definitions of this section
  follow section 3 (data model) and section 4.1 (operations) of the specification: a
  cell per (file, service) that is absent or in one of four states, the cached schedules
  and the two aggregate counters.
\<close>

datatype cell =
    Dispatched int
  | Finished key "int option" bool
  | FailedRecoverable nat
  | FailedTerminal key

record dispatch_hash =
  cells :: "(sha256 \<times> (service \<times> cell) list) list"
  schedules :: "(sha256 \<times> schedule) list"
  dispatch_count :: nat
  finished_count :: nat

text \<open>
  Modelled from the spec: the table of a submission for which nothing was written yet (a
  table is created lazily on the first write), and the lookup and the write of one cell.
\<close>

definition empty_table :: dispatch_hash where
  "empty_table = \<lparr>cells = [], schedules = [], dispatch_count = 0, finished_count = 0\<rparr>"

definition row_of :: "dispatch_hash \<Rightarrow> sha256 \<Rightarrow> (service \<times> cell) list" where
  "row_of t f = (case map_of (cells t) f of None \<Rightarrow> [] | Some r \<Rightarrow> r)"

definition cell_at :: "dispatch_hash \<Rightarrow> sha256 \<Rightarrow> service \<Rightarrow> cell option" where
  "cell_at t f s = map_of (row_of t f) s"

definition set_cell :: "sha256 \<Rightarrow> service \<Rightarrow> cell \<Rightarrow> dispatch_hash \<Rightarrow> dispatch_hash" where
  "set_cell f s c t = t\<lparr>cells := AList.update f (AList.update s c (row_of t f)) (cells t)\<rparr>"

text \<open>
  Modelled from the spec: the terminal states of a cell are \<^verbatim>\<open>Finished\<close> and
  \<^verbatim>\<open>FailedTerminal\<close> (glossary, terminal cell).
\<close>

fun is_terminal :: "cell \<Rightarrow> bool" where
  "is_terminal (Finished k sc d) = True"
| "is_terminal (FailedTerminal e) = True"
| "is_terminal (Dispatched ts) = False"
| "is_terminal (FailedRecoverable n) = False"

fun is_dispatched :: "cell option \<Rightarrow> bool" where
  "is_dispatched (Some (Dispatched ts)) = True"
| "is_dispatched c = False"

text \<open>
  Modelled from the spec: the number of recorded cells that are not terminal, which is
  what \<^verbatim>\<open>finish\<close> returns.
\<close>

definition remaining :: "dispatch_hash \<Rightarrow> nat" where
  "remaining t = length (filter (\<lambda>c. \<not> is_terminal c) (concat (map (map snd \<circ> snd) (cells t))))"

text \<open>
  Modelled from the spec: \<^verbatim>\<open>dispatch(file, service)\<close>. The cell becomes \<^verbatim>\<open>Dispatched{now}\<close> and
  \<^verbatim>\<open>dispatch_count\<close> (the cells ever dispatched) grows, except that a repeat on a cell
  that is already \<^verbatim>\<open>Dispatched\<close> only refreshes the timestamp.
\<close>

definition dispatch :: "int \<Rightarrow> sha256 \<Rightarrow> service \<Rightarrow> dispatch_hash \<Rightarrow> dispatch_hash" where
  "dispatch now f s t =
     set_cell f s (Dispatched now)
       (t\<lparr>dispatch_count :=
            (if is_dispatched (cell_at t f s) then dispatch_count t else Suc (dispatch_count t))\<rparr>)"

text \<open>
  Modelled from the spec: \<^verbatim>\<open>dispatch_time(file, service)\<close>, the timestamp of the current
  \<^verbatim>\<open>Dispatched\<close> cell, or 0.
\<close>

definition dispatch_time :: "dispatch_hash \<Rightarrow> sha256 \<Rightarrow> service \<Rightarrow> int" where
  "dispatch_time t f s = (case cell_at t f s of Some (Dispatched ts) \<Rightarrow> ts | _ \<Rightarrow> 0)"

text \<open>
  Modelled from the spec: \<^verbatim>\<open>finish(file, service, result_key, score, drop)\<close> writes \<^verbatim>\<open>Finished\<close>, increments
  \<^verbatim>\<open>finished_count\<close> and returns the number of cells still not terminal; finishing a cell
  that is already terminal changes nothing (the first report wins).
\<close>

definition finish ::
  "sha256 \<Rightarrow> service \<Rightarrow> key \<Rightarrow> int option \<Rightarrow> bool \<Rightarrow> dispatch_hash \<Rightarrow> nat \<times> dispatch_hash" where
  "finish f s k sc d t =
     (let t' = (case cell_at t f s of
                  Some (Finished k' sc' d') \<Rightarrow> t
                | Some (FailedTerminal e) \<Rightarrow> t
                | _ \<Rightarrow> set_cell f s (Finished k sc d) (t\<lparr>finished_count := Suc (finished_count t)\<rparr>))
      in (remaining t', t'))"

text \<open>
  Modelled from the spec: \<^verbatim>\<open>finished(file, service)\<close>, the result key, the sentinel
  \<^verbatim>\<open>"errors"\<close> for a cell that failed for good, or \<^verbatim>\<open>None\<close>.
\<close>

definition finished :: "dispatch_hash \<Rightarrow> sha256 \<Rightarrow> service \<Rightarrow> key option" where
  "finished t f s =
     (case cell_at t f s of
        Some (Finished k sc d) \<Rightarrow> Some k
      | Some (FailedTerminal e) \<Rightarrow> Some ''errors''
      | _ \<Rightarrow> None)"

text \<open>
  Modelled from the spec: the attributes the client reads from a status cell, \<^verbatim>\<open>drop\<close>,
  \<^verbatim>\<open>is_error\<close> and \<^verbatim>\<open>key\<close>, then \<^verbatim>\<open>dropped(file, service)\<close> and \<^verbatim>\<open>all_results()\<close>,
  which gives every recorded cell, file by file.
\<close>

fun cell_drop :: "cell \<Rightarrow> bool" where
  "cell_drop (Finished k sc d) = d"
| "cell_drop c = False"

fun cell_is_error :: "cell \<Rightarrow> bool" where
  "cell_is_error (FailedTerminal e) = True"
| "cell_is_error (FailedRecoverable n) = True"
| "cell_is_error c = False"

fun cell_key :: "cell \<Rightarrow> key" where
  "cell_key (Finished k sc d) = k"
| "cell_key (FailedTerminal e) = e"
| "cell_key c = []"

definition dropped :: "dispatch_hash \<Rightarrow> sha256 \<Rightarrow> service \<Rightarrow> bool" where
  "dropped t f s = (case cell_at t f s of Some c \<Rightarrow> cell_drop c | None \<Rightarrow> False)"

definition all_results :: "dispatch_hash \<Rightarrow> (sha256 \<times> (service \<times> cell) list) list" where
  "all_results t = cells t"

text \<open>
  Modelled from the spec: \<^verbatim>\<open>all_finished()\<close> holds when the counters agree and no cell of any cached schedule is empty.
\<close>

definition all_finished :: "dispatch_hash \<Rightarrow> bool" where
  "all_finished t \<longleftrightarrow>
     finished_count t = dispatch_count t \<and>
     list_all (\<lambda>(f, sch). list_all (\<lambda>s. cell_at t f s \<noteq> None) (concat sch)) (schedules t)"

section \<open>The shared state\<close>

text \<open>
  The stores, queues and registries the two modules share. \<^verbatim>\<open>NamedQueue(name).push\<close>
  appends to the list kept under that name; the watcher registry \<^verbatim>\<open>watcher-list:sid\<close>
  is an expiring set of queue names (its expiry is not modelled); \<^verbatim>\<open>watches\<close> holds the deadline timers set by
  \<^verbatim>\<open>watcher.touch\<close> and \<^verbatim>\<open>quota_holds\<close> the persistent hashes \<^verbatim>\<open>submissions-<submitter>\<close>;
  \<^verbatim>\<open>uuid_count\<close> counts
  the identifiers drawn from \<^verbatim>\<open>uuid.uuid4()\<close> and \<^verbatim>\<open>reply_queue_name\<close>.
\<close>

record world =
  clock :: int
  tables :: "sid \<Rightarrow> dispatch_hash"
  results :: "key \<rightharpoonup> result"
  errors :: "(key \<times> error option) list"
  files :: "sha256 \<rightharpoonup> file_info"
  submissions :: "sid \<rightharpoonup> submission"
  queues :: "string \<Rightarrow> message list"
  watcher_list :: "sid \<Rightarrow> string list"
  counts :: "string \<Rightarrow> nat"
  watches :: "(sid \<times> int \<times> string \<times> message) list"
  quota_holds :: "string \<Rightarrow> (sid \<times> int) list"
  uuid_count :: nat

text \<open>
  What the modules take from outside: the \<^verbatim>\<open>Scheduler\<close> of module \<^verbatim>\<open>configuration\<close>
  (absent from the sources, so its methods are parameters), the configuration values and
  the library functions \<^verbatim>\<open>config_hash\<close>, \<^verbatim>\<open>json.dumps\<close>, \<^verbatim>\<open>Result.build_key\<close>,
  \<^verbatim>\<open>uuid4().hex\<close> and \<^verbatim>\<open>reply_queue_name\<close>.
\<close>

record env =
  build_schedule :: "submission \<Rightarrow> string option \<Rightarrow> schedule"
  service_timeout :: "service \<Rightarrow> int"
  service_failure_limit :: "service \<Rightarrow> int"
  build_service_config :: "service \<Rightarrow> submission \<Rightarrow> config"
  build_result_key :: "sha256 \<Rightarrow> service \<Rightarrow> string \<Rightarrow> key"
  config_hash :: "config \<Rightarrow> string"
  json_dumps :: "config \<Rightarrow> string"
  build_key :: "result \<Rightarrow> string \<Rightarrow> key"
  config_key :: "service_task \<Rightarrow> string"
  uuid_hex :: "nat \<Rightarrow> string"
  reply_queue_name :: "nat \<Rightarrow> string"
  max_extraction_depth :: int
  extraction_depth_limit :: int
  dispatcher_timeout :: int

definition FILE_QUEUE :: string where
  "FILE_QUEUE = ''dispatch-file''"

definition SUBMISSION_QUEUE :: string where
  "SUBMISSION_QUEUE = ''submission''"

definition service_queue_name :: "service \<Rightarrow> string" where
  "service_queue_name service = ''service-queue-'' @ service"

definition push :: "string \<Rightarrow> message \<Rightarrow> world \<Rightarrow> world" where
  "push q m w = w\<lparr>queues := (queues w)(q := queues w q @ [m])\<rparr>"

definition push_all :: "string \<Rightarrow> message list \<Rightarrow> world \<Rightarrow> world" where
  "push_all q ms w = foldl (\<lambda>w' m. push q m w') w ms"

text \<open>The file tasks and the wake-ups among the messages of a queue, in order.\<close>

fun file_tasks :: "message list \<Rightarrow> file_task list" where
  "file_tasks [] = []"
| "file_tasks (File t # ms) = t # file_tasks ms"
| "file_tasks (m # ms) = file_tasks ms"

fun wake_ups :: "message list \<Rightarrow> sid list" where
  "wake_ups [] = []"
| "wake_ups (Sid s # ms) = s # wake_ups ms"
| "wake_ups (m # ms) = wake_ups ms"

fun watch_messages :: "message list \<Rightarrow> message list" where
  "watch_messages [] = []"
| "watch_messages (Watch st k # ms) = Watch st k # watch_messages ms"
| "watch_messages (m # ms) = watch_messages ms"

text \<open>The file tasks that a transition from \<open>w\<close> to \<open>w'\<close> added to the file queue.\<close>

definition new_file_tasks :: "world \<Rightarrow> world \<Rightarrow> file_task list" where
  "new_file_tasks w w' =
     drop (length (file_tasks (queues w FILE_QUEUE))) (file_tasks (queues w' FILE_QUEUE))"

definition new_wake_ups :: "world \<Rightarrow> world \<Rightarrow> sid list" where
  "new_wake_ups w w' =
     drop (length (wake_ups (queues w SUBMISSION_QUEUE))) (wake_ups (queues w' SUBMISSION_QUEUE))"

section \<open>The client: service\_finished\<close>

text \<open>
  client.py, lines 98-130. The child task of an extracted file carries the record fetched
  from the file collection, one more level of depth and the parent's hash; the task pushed
  for the file itself has the depth of the service task and no parent.

  \<open>service_finished\<close> is the state the call leaves. Its last statement (lines 129-130)
  calls \<^verbatim>\<open>push\<close> on each member of the watcher set; the members are the queue names that
  \<^verbatim>\<open>setup_watch_queue\<close> added, which are strings, so with a watcher registered the call
  ends there in an AttributeError and nothing is sent: \<open>service_finished_raises\<close>.
\<close>

definition child_task :: "world \<Rightarrow> service_task \<Rightarrow> sha256 \<Rightarrow> file_task" where
  "child_task w task e =
     \<lparr>task_sid = task_sid task, file_hash = e, file_type = map_option fi_type (files w e),
      depth = depth task + 1, parent_hash = Some (file_hash task)\<rparr>"

definition parent_task :: "service_task \<Rightarrow> file_task" where
  "parent_task task =
     \<lparr>task_sid = task_sid task, file_hash = file_hash task, file_type = file_type task,
      depth = depth task, parent_hash = None\<rparr>"

definition service_finished :: "env \<Rightarrow> service_task \<Rightarrow> result \<Rightarrow> world \<Rightarrow> world" where
  "service_finished env task res w =
     (let result_key = build_key env res (config_key env task);
          w1 = w\<lparr>results := (results w)(result_key \<mapsto> res)\<rparr>;
          (rem, tbl) = finish (file_hash task) (service_name task) result_key
                         (Some (score res)) (drop_file res) (tables w1 (task_sid task));
          w2 = w1\<lparr>tables := (tables w1)(task_sid task := tbl)\<rparr>;
          w3 = (if depth task < max_extraction_depth env
                then push_all FILE_QUEUE (map (\<lambda>e. File (child_task w2 task e)) (extracted res)) w2
                else w2);
          w4 = (if rem = 0 then push FILE_QUEUE (File (parent_task task)) w3 else w3)
      in w4)"

definition service_finished_raises :: "service_task \<Rightarrow> world \<Rightarrow> py_error option" where
  "service_finished_raises task w =
     (if watcher_list w (task_sid task) = [] then None else Some AttributeError)"

section \<open>The client: setup\_watch\_queue and outstanding\_services\<close>

text \<open>
  client.py, lines 157-197. \<^verbatim>\<open>ExpiringSet.add\<close> keeps one copy of a member. The function
  returns the name of the queue it made, together with the new state.
\<close>

definition set_add :: "'a \<Rightarrow> 'a list \<Rightarrow> 'a list" where
  "set_add x xs = (if x \<in> set xs then xs else xs @ [x])"

definition replay :: "cell \<Rightarrow> message" where
  "replay status =
     (if cell_is_error status then Watch FAIL (Some (cell_key status))
      else Watch OK (Some (cell_key status)))"

definition status_cells :: "(sha256 \<times> (service \<times> cell) list) list \<Rightarrow> cell list" where
  "status_cells all_service_status = concat (map (\<lambda>(f, status_values). map snd status_values) all_service_status)"

definition setup_watch_queue :: "env \<Rightarrow> sid \<Rightarrow> world \<Rightarrow> string \<times> world" where
  "setup_watch_queue env sid w =
     (let queue_name = reply_queue_name env (uuid_count w);
          w1 = push queue_name (Watch START None) (w\<lparr>uuid_count := Suc (uuid_count w)\<rparr>);
          w2 = w1\<lparr>watcher_list := (watcher_list w1)(sid := set_add queue_name (watcher_list w1 sid))\<rparr>;
          dispatch_hash = tables w2 sid
      in if dispatch_count dispatch_hash = 0 \<and> finished_count dispatch_hash = 0
         then (case submissions w2 sid of
                 None \<Rightarrow> (queue_name, push queue_name (Watch STOP None) w2)
               | Some submission \<Rightarrow>
                   if sub_state submission = ''completed''
                   then (queue_name, push queue_name (Watch STOP None) w2)
                   else (queue_name, push SUBMISSION_QUEUE (Sid sid) w2))
         else (queue_name,
               push_all queue_name (map replay (status_cells (all_results dispatch_hash))) w2))"

text \<open>
  client.py, lines 60-93. The output dict is an association list. For one file the
  schedule is consumed stage by stage; \<^verbatim>\<open>schedule.clear()\<close> lets the current stage finish
  and ends the \<^verbatim>\<open>while\<close> loop, which the flag returned by \<open>count_stage\<close> records. A file
  without a cached schedule (\<^verbatim>\<open>schedules.get\<close> gives \<^verbatim>\<open>None\<close>) is skipped by the loop test.
\<close>

definition count_service ::
  "(service \<times> cell) list \<Rightarrow> bool \<times> (service \<times> nat) list \<Rightarrow> service \<Rightarrow> bool \<times> (service \<times> nat) list" where
  "count_service status_values acc service =
     (case map_of status_values service of
        Some status \<Rightarrow> (if cell_drop status then (True, snd acc) else acc)
      | None \<Rightarrow>
          (fst acc,
           AList.update service
             ((case map_of (snd acc) service of None \<Rightarrow> 0 | Some n \<Rightarrow> n) + 1) (snd acc)))"

definition count_stage ::
  "(service \<times> cell) list \<Rightarrow> service list \<Rightarrow> (service \<times> nat) list \<Rightarrow> bool \<times> (service \<times> nat) list" where
  "count_stage status_values stage output = foldl (count_service status_values) (False, output) stage"

fun count_schedule ::
  "(service \<times> cell) list \<Rightarrow> schedule \<Rightarrow> (service \<times> nat) list \<Rightarrow> (service \<times> nat) list" where
  "count_schedule status_values [] output = output"
| "count_schedule status_values (stage # schedule) output =
     (case count_stage status_values stage output of
        (cleared, output') \<Rightarrow>
          if cleared then output' else count_schedule status_values schedule output')"

definition count_file ::
  "dispatch_hash \<Rightarrow> (service \<times> nat) list \<Rightarrow> sha256 \<times> (service \<times> cell) list \<Rightarrow> (service \<times> nat) list" where
  "count_file dispatch_hash output entry =
     (case map_of (schedules dispatch_hash) (fst entry) of
        None \<Rightarrow> output
      | Some schedule \<Rightarrow> count_schedule (snd entry) schedule output)"

definition outstanding_services :: "dispatch_hash \<Rightarrow> (service \<times> nat) list" where
  "outstanding_services dispatch_hash =
     foldl (count_file dispatch_hash) [] (all_results dispatch_hash)"

section \<open>The dispatcher: \_find\_results\<close>

text \<open>
  dispatcher.py, lines 439-466. The error collection is searched twice: for a document of
  this submission, file and service whose category is terminal (\<^verbatim>\<open>rows=1\<close>: at most one
  item comes back), and for the number (\<^verbatim>\<open>total\<close>) of those whose category is timeout or
  crash. The search is the datastore's; here it is a filter over the stored documents.
  The function returns a key, the sentinel \<^verbatim>\<open>'errors'\<close> or \<^verbatim>\<open>False\<close> (\<open>None\<close>).
\<close>

definition error_matches :: "sid \<Rightarrow> sha256 \<Rightarrow> service \<Rightarrow> string list \<Rightarrow> key \<times> error option \<Rightarrow> bool" where
  "error_matches sid f s categories doc =
     (case snd doc of
        None \<Rightarrow> False
      | Some e \<Rightarrow> err_sid e = sid \<and> err_sha256 e = f \<and> err_service e = s
                  \<and> err_category e \<in> set categories)"

definition search :: "world \<Rightarrow> sid \<Rightarrow> sha256 \<Rightarrow> service \<Rightarrow> string list \<Rightarrow> nat \<Rightarrow> key list \<times> nat" where
  "search w sid f s categories rows =
     (let hits = filter (error_matches sid f s categories) (errors w)
      in (take rows (map fst hits), length hits))"

definition find_results :: "env \<Rightarrow> world \<Rightarrow> sid \<Rightarrow> sha256 \<Rightarrow> service \<Rightarrow> config \<Rightarrow> key option" where
  "find_results env w sid f s cfg =
     (let k = build_result_key env f s (config_hash env cfg)
      in if results w k \<noteq> None then Some k
         else (case fst (search w sid f s [''terminal''] 1) of
                 item # items \<Rightarrow> Some item
               | [] \<Rightarrow>
                   if int (snd (search w sid f s [''timeout'', ''crash''] 0))
                        > service_failure_limit env s
                   then Some ''errors'' else None))"

section \<open>The dispatcher: dispatch\_file\<close>

text \<open>
  dispatcher.py, lines 291-437. Python truth of a key: a non-empty string.
\<close>

definition truthy :: "key option \<Rightarrow> bool" where
  "truthy k = (case k of None \<Rightarrow> False | Some x \<Rightarrow> x \<noteq> [])"

record walk_state =
  cleared :: bool
  outstanding :: "(service \<times> config) list"
  tasks_remaining :: nat
  process_table :: dispatch_hash

text \<open>
  One turn of \<^verbatim>\<open>for service in stage\<close> (lines 330-388). A service that the table reports
  finished is passed over (lines 332-335), and the schedule is cleared when the file is
  dropped and filtering is not ignored. Every other service reaches line 350,
  \<^verbatim>\<open>file_count = len(self.entries[sid]) + len(self.completed[sid])\<close>: the class assigns
  no attribute \<^verbatim>\<open>entries\<close>, so the read raises AttributeError. Lines 353-388, among them
  the call of \<^verbatim>\<open>_find_results\<close>, the call of \<^verbatim>\<open>finish\<close> and
  \<^verbatim>\<open>outstanding[service] = config\<close>, stand behind that statement and are never run.
\<close>

definition walk_service ::
  "submission \<Rightarrow> sha256 \<Rightarrow> py_error + walk_state \<Rightarrow> service \<Rightarrow> py_error + walk_state" where
  "walk_service submission f acc service =
     (case acc of
        Inl e \<Rightarrow> Inl e
      | Inr st \<Rightarrow>
          if truthy (finished (process_table st) f service)
          then Inr (if \<not> ignore_filtering (sub_params submission)
                       \<and> dropped (process_table st) f service
                    then st\<lparr>cleared := True\<rparr> else st)
          else Inl AttributeError)"

text \<open>
  The loop \<^verbatim>\<open>while schedule and not outstanding\<close> (lines 327-388);
  \<^verbatim>\<open>schedule.clear()\<close> lets the current stage finish and ends the loop.
\<close>

fun walk :: "submission \<Rightarrow> sha256 \<Rightarrow> schedule \<Rightarrow> walk_state \<Rightarrow> py_error + walk_state" where
  "walk submission f [] st = Inr st"
| "walk submission f (stage # schedule) st =
     (if outstanding st \<noteq> [] then Inr st
      else (case foldl (walk_service submission f) (Inr st) stage of
              Inl e \<Rightarrow> Inl e
            | Inr st' \<Rightarrow> if cleared st' then Inr st' else walk submission f schedule st'))"

text \<open>One turn of \<^verbatim>\<open>for service, config in outstanding.items()\<close> (lines 392-407).\<close>

definition make_service_task :: "env \<Rightarrow> file_task \<Rightarrow> service \<Rightarrow> config \<Rightarrow> service_task" where
  "make_service_task env task service cfg =
     \<lparr>task_sid = task_sid task, file_hash = file_hash task, file_type = file_type task,
      depth = depth task, parent_hash = parent_hash task,
      service_name = service, service_config = json_dumps env cfg\<rparr>"

definition dispatch_service :: "env \<Rightarrow> file_task \<Rightarrow> world \<Rightarrow> service \<times> config \<Rightarrow> world" where
  "dispatch_service env task w entry =
     (let service = fst entry;
          tbl = tables w (task_sid task);
          queued_time = clock w - dispatch_time tbl (file_hash task) service
      in if queued_time < service_timeout env service then w
         else (let w' = push (service_queue_name service)
                          (Service (make_service_task env task service (snd entry))) w
               in w'\<lparr>tables := (tables w')(task_sid task :=
                       dispatch (clock w) (file_hash task) service tbl)\<rparr>))"

text \<open>The test of line 395: the service was dispatched less than its timeout ago.\<close>

definition in_flight :: "env \<Rightarrow> file_task \<Rightarrow> world \<Rightarrow> service \<Rightarrow> bool" where
  "in_flight env task w s \<longleftrightarrow>
     clock w - dispatch_time (tables w (task_sid task)) (file_hash task) s < service_timeout env s"

definition touch :: "env \<Rightarrow> sid \<Rightarrow> world \<Rightarrow> world" where
  "touch env sid w =
     w\<lparr>watches := AList.update sid (dispatcher_timeout env, SUBMISSION_QUEUE, Sid sid) (watches w)\<rparr>"

definition increment :: "string \<Rightarrow> world \<Rightarrow> world" where
  "increment name w = w\<lparr>counts := (counts w)(name := counts w name + 1)\<rparr>"

text \<open>The state the walk starts from (lines 325-326), and the walk of the task's schedule.\<close>

definition found :: "env \<Rightarrow> submission \<Rightarrow> file_task \<Rightarrow> world \<Rightarrow> py_error + walk_state" where
  "found env submission task w =
     walk submission (file_hash task) (build_schedule env submission (file_type task))
       \<lparr>cleared = False, outstanding = [], tasks_remaining = 0,
        process_table = tables w (task_sid task)\<rparr>"

text \<open>
  The function for a loaded submission (lines 313-437). A raise is the value \<open>Inl\<close> of
  the exception and of the state at that moment: the watch was refreshed (line 314) and
  nothing else was written.
\<close>

definition dispatch_file_body ::
  "env \<Rightarrow> submission \<Rightarrow> file_task \<Rightarrow> world \<Rightarrow> (py_error \<times> world) + world" where
  "dispatch_file_body env submission task w =
     (let w1 = touch env (task_sid task) w
      in case found env submission task w1 of
           Inl e \<Rightarrow> Inl (e, w1)
         | Inr st \<Rightarrow>
             (let w2 = w1\<lparr>tables := (tables w1)(task_sid task := process_table st)\<rparr>
              in if outstanding st \<noteq> []
                 then Inr (foldl (dispatch_service env task) w2 (outstanding st))
                 else (let w3 = increment ''dispatch.files_completed'' w2
                       in if all_finished (process_table st) \<and> tasks_remaining st = 0
                          then Inr (push SUBMISSION_QUEUE (Sid (sub_sid submission)) w3)
                          else Inr w3)))"

text \<open>
  The submission is read from the store (line 310). Without it the schedule cannot be
  built here (the source hands \<^verbatim>\<open>None\<close> to the scheduler, which is not among the
  sources) and the first read of an attribute of the submission fails; the watch was
  refreshed before.
\<close>

definition dispatch_file :: "env \<Rightarrow> file_task \<Rightarrow> world \<Rightarrow> (py_error \<times> world) + world" where
  "dispatch_file env task w =
     (case submissions w (task_sid task) of
        None \<Rightarrow> Inl (AttributeError, touch env (task_sid task) w)
      | Some submission \<Rightarrow> dispatch_file_body env submission task w)"

text \<open>The state a call leaves, and the exception it ends in, if any.\<close>

fun state_left :: "(py_error \<times> world) + world \<Rightarrow> world" where
  "state_left (Inl (e, w)) = w"
| "state_left (Inr w) = w"

fun raised :: "(py_error \<times> world) + world \<Rightarrow> py_error option" where
  "raised (Inl (e, w)) = Some e"
| "raised (Inr w) = None"

section \<open>The dispatcher: dispatch\_submission\<close>

text \<open>
  dispatcher.py, lines 25-36 and 126-229. The files of a submission are identified by
  their hashes (the source reads both \<^verbatim>\<open>file_hash\<close> and \<^verbatim>\<open>file_hash.sha256\<close>).
  \<^verbatim>\<open>create_missing_file_error\<close> builds the error
  document and has no \<^verbatim>\<open>return\<close> statement: its value is \<^verbatim>\<open>None\<close>, which is what
  \<^verbatim>\<open>errors.save\<close> receives. \<open>missing_file_error\<close> is the document the function builds.
\<close>

definition missing_file_error :: "submission \<Rightarrow> sha256 \<Rightarrow> error" where
  "missing_file_error submission sha =
     \<lparr>err_sid = sub_sid submission, err_sha256 = sha, err_service = ''dispatcher'',
      err_status = ''FAIL_NONRECOVERABLE'', err_category = []\<rparr>"

definition create_missing_file_error :: "submission \<Rightarrow> sha256 \<Rightarrow> error option" where
  "create_missing_file_error submission sha =
     (let built = missing_file_error submission sha in None)"

definition save_error :: "env \<Rightarrow> error option \<Rightarrow> world \<Rightarrow> world" where
  "save_error env doc w =
     w\<lparr>errors := AList.update (uuid_hex env (uuid_count w)) doc (errors w),
       uuid_count := Suc (uuid_count w)\<rparr>"

text \<open>The loop over \<^verbatim>\<open>submission.files\<close> (lines 152-164): the world and the seeded tasks.\<close>

definition seed_file ::
  "env \<Rightarrow> submission \<Rightarrow> world \<times> file_task list \<Rightarrow> sha256 \<Rightarrow> world \<times> file_task list" where
  "seed_file env submission acc fh =
     (case files (fst acc) fh of
        None \<Rightarrow> (save_error env (create_missing_file_error submission fh) (fst acc), snd acc)
      | Some file_data \<Rightarrow>
          (fst acc,
           snd acc @ [\<lparr>task_sid = sub_sid submission, file_hash = fh,
                       file_type = Some (fi_type file_data), depth = 0, parent_hash = None\<rparr>]))"

definition seed_files :: "env \<Rightarrow> submission \<Rightarrow> world \<Rightarrow> world \<times> file_task list" where
  "seed_files env submission w = foldl (seed_file env submission) (w, []) (sub_files submission)"

record check_state =
  unchecked_files :: "file_task list"
  encountered_files :: "sha256 set"
  pending_files :: "(sha256 \<times> file_task) list"
  max_score :: "int option"
  result_classifications :: "string list"

text \<open>
  The loop over the extracted files of a result (lines 204-214). The type of a new file
  is read from the record of \<^verbatim>\<open>file_hash\<close>, the variable of the loop over
  \<^verbatim>\<open>submission.files\<close>, which still holds the last file of the submission.
\<close>

definition add_sub_file ::
  "world \<Rightarrow> submission \<Rightarrow> file_task \<Rightarrow> py_error + check_state \<Rightarrow> sha256 \<Rightarrow> py_error + check_state" where
  "add_sub_file w submission task acc sub_file =
     (case acc of
        Inl e \<Rightarrow> Inl e
      | Inr st \<Rightarrow>
          if sub_file \<in> encountered_files st then Inr st
          else if sub_files submission = [] then Inl NameError
          else (case files w (last (sub_files submission)) of
                  None \<Rightarrow> Inl AttributeError
                | Some file_data \<Rightarrow>
                    Inr (st\<lparr>encountered_files := insert sub_file (encountered_files st),
                            unchecked_files := unchecked_files st @
                              [\<lparr>task_sid = sub_sid submission, file_hash = sub_file,
                                file_type = Some (fi_type file_data), depth = depth task + 1,
                                parent_hash = None\<rparr>]\<rparr>)))"

text \<open>One turn of the loop over the services of a file (lines 179-221).\<close>

definition check_service ::
  "env \<Rightarrow> world \<Rightarrow> submission \<Rightarrow> file_task \<Rightarrow> py_error + check_state \<Rightarrow> service \<Rightarrow> py_error + check_state" where
  "check_service env w submission task acc service =
     (case acc of
        Inl e \<Rightarrow> Inl e
      | Inr st \<Rightarrow>
          (let tbl = tables w (sub_sid submission);
               sha = file_hash task;
               runtime = clock w - dispatch_time tbl sha service
           in if runtime < service_timeout env service
              then Inr (st\<lparr>pending_files := AList.update sha task (pending_files st)\<rparr>)
              else (let result_key = finished tbl sha service
                    in if \<not> truthy result_key
                       then Inr (st\<lparr>pending_files := AList.update sha task (pending_files st)\<rparr>)
                       else if result_key = Some ''errors'' then Inr st
                       else if depth task \<ge> extraction_depth_limit env then Inr st
                       else (case results w (the result_key) of
                               None \<Rightarrow> Inl AttributeError
                             | Some res \<Rightarrow>
                                 (case foldl (add_sub_file w submission task) (Inr st) (extracted res) of
                                    Inl e \<Rightarrow> Inl e
                                  | Inr st' \<Rightarrow>
                                      Inr (st'\<lparr>max_score :=
                                                 (case max_score st' of
                                                    None \<Rightarrow> Some (score res)
                                                  | Some m \<Rightarrow> Some (max m (score res))),
                                               result_classifications :=
                                                 result_classifications st' @ [classification res]\<rparr>))))))"

text \<open>
  One turn of \<^verbatim>\<open>while unchecked_files\<close> (lines 175-221) for the task popped from the end
  of the list; \<^verbatim>\<open>reduce\<close> without an initial value fails on an empty schedule.
\<close>

definition check_file ::
  "env \<Rightarrow> world \<Rightarrow> submission \<Rightarrow> file_task \<Rightarrow> check_state \<Rightarrow> py_error + check_state" where
  "check_file env w submission task st =
     (case build_schedule env submission (file_type task) of
        [] \<Rightarrow> Inl TypeError
      | stage # schedule \<Rightarrow>
          foldl (check_service env w submission task) (Inr st) (concat (stage # schedule)))"

text \<open>
  The loop \<^verbatim>\<open>while unchecked_files\<close> (lines 174-221): \<^verbatim>\<open>pop()\<close> takes the last task.
  A task only adds tasks one level deeper, and only below the depth limit, which is why
  the loop ends.
\<close>

definition weight :: "env \<Rightarrow> file_task \<Rightarrow> nat" where
  "weight env t = nat (extraction_depth_limit env - depth t)"

function check_files ::
  "env \<Rightarrow> world \<Rightarrow> submission \<Rightarrow> check_state \<Rightarrow> py_error + check_state" where
  "check_files env w submission st =
     (if unchecked_files st = [] then Inr st
      else (case check_file env w submission (last (unchecked_files st))
                   (st\<lparr>unchecked_files := butlast (unchecked_files st)\<rparr>) of
              Inl e \<Rightarrow> Inl e
            | Inr st' \<Rightarrow> check_files env w submission st'))"
  by pat_completeness auto

datatype outcome =
    Pending world
  | Finalize world "string list" "int option"

text \<open>
  \<^verbatim>\<open>dispatch_submission\<close> (lines 126-229). When no file is pending the function calls
  \<^verbatim>\<open>finalize_submission(submission, result_classifications, max_score)\<close>; the outcome
  \<open>Finalize\<close> records the arguments of that call and the state in which it is made.
  The body of \<^verbatim>\<open>finalize_submission\<close> (lines 231-289) is not modelled: its first
  statement reads \<^verbatim>\<open>task\<close>, which is neither a parameter nor a name of the module, and it
  goes on to \<^verbatim>\<open>dispatcher.completed\<close> and \<^verbatim>\<open>dispatcher.watchers\<close>, which are not defined
  either.
\<close>

definition refresh_quota :: "submission \<Rightarrow> world \<Rightarrow> world" where
  "refresh_quota submission w =
     (if quota_item (sub_params submission) \<and> submitter (sub_params submission) \<noteq> []
      then w\<lparr>quota_holds := (quota_holds w)
              (''submissions-'' @ submitter (sub_params submission) :=
                 AList.update (sub_sid submission) (clock w)
                   (quota_holds w (''submissions-'' @ submitter (sub_params submission))))\<rparr>
      else w)"

definition initial_check :: "submission \<Rightarrow> file_task list \<Rightarrow> check_state" where
  "initial_check submission unchecked =
     \<lparr>unchecked_files = unchecked, encountered_files = set (sub_files submission),
      pending_files = [], max_score = None, result_classifications = []\<rparr>"

definition dispatch_submission :: "env \<Rightarrow> submission \<Rightarrow> world \<Rightarrow> py_error + outcome" where
  "dispatch_submission env submission w =
     (let w1 = refresh_quota submission (touch env (sub_sid submission) w);
          (w2, unchecked) = seed_files env submission w1
      in case check_files env w2 submission (initial_check submission unchecked) of
           Inl e \<Rightarrow> Inl e
         | Inr st \<Rightarrow>
             if pending_files st \<noteq> []
             then Inr (Pending (push_all FILE_QUEUE (map (\<lambda>entry. File (snd entry)) (pending_files st)) w2))
             else Inr (Finalize w2 (result_classifications st) (max_score st)))"

text \<open>The arguments of the call of \<^verbatim>\<open>finalize_submission\<close>, when it is reached.\<close>

fun finalize_call :: "py_error + outcome \<Rightarrow> (string list \<times> int option) option" where
  "finalize_call (Inr (Finalize w cs m)) = Some (cs, m)"
| "finalize_call r = None"

fun outcome_world :: "outcome \<Rightarrow> world" where
  "outcome_world (Pending w) = w"
| "outcome_world (Finalize w cs m) = w"

text \<open>
  What \<^verbatim>\<open>dispatch_submission\<close> reads of the shared state after seeding the files: the
  dispatch tables, the results, the file collection and the clock.
\<close>

definition same_view :: "world \<Rightarrow> world \<Rightarrow> bool" where
  "same_view w w' \<longleftrightarrow>
     tables w' = tables w \<and> results w' = results w \<and> files w' = files w \<and> clock w' = clock w"

text \<open>
  \<^verbatim>\<open>dispatch_submission\<close> writes the shared state before the loop over the unchecked
  files (the watch, the quota hold, the documents for missing files) and after it (the
  file queue); the loop itself only reads. \<open>seeded\<close> is the state in which the loop runs,
  and so the state the call leaves when the loop raises.
\<close>

definition seeded :: "env \<Rightarrow> submission \<Rightarrow> world \<Rightarrow> world" where
  "seeded env submission w =
     fst (seed_files env submission (refresh_quota submission (touch env (sub_sid submission) w)))"

definition submission_state_left :: "env \<Rightarrow> submission \<Rightarrow> world \<Rightarrow> world" where
  "submission_state_left env submission w =
     (case dispatch_submission env submission w of
        Inl e \<Rightarrow> seeded env submission w
      | Inr out \<Rightarrow> outcome_world out)"

fun failure :: "py_error + outcome \<Rightarrow> py_error option" where
  "failure (Inl e) = Some e"
| "failure (Inr out) = None"

section \<open>Concrete states\<close>

text \<open>
  A small deployment used to run the definitions: the schedule of scenario S1 (two
  stages, \<open>s1\<close> then \<open>s2\<close>), a timeout of 30 seconds, a failure limit of 2 and a depth
  limit of 2; an empty world at clock reading 1000; a service task for \<open>s1\<close> on file \<open>F\<close> of
  submission \<open>A\<close> and a result with score 10.
\<close>

definition ex_env :: env where
  "ex_env =
     \<lparr>build_schedule = (\<lambda>submission ty. [[''s1''], [''s2'']]),
      service_timeout = (\<lambda>s. 30), service_failure_limit = (\<lambda>s. 2),
      build_service_config = (\<lambda>s submission. ''cfg''),
      build_result_key = (\<lambda>f s h. f @ ''.'' @ s @ ''.'' @ h),
      config_hash = (\<lambda>c. c), json_dumps = (\<lambda>c. c),
      build_key = (\<lambda>r ck. ''r.'' @ ck), config_key = (\<lambda>t. service_name t),
      uuid_hex = (\<lambda>n. ''e'' @ replicate n (CHR ''x'')),
      reply_queue_name = (\<lambda>n. ''D-'' @ replicate n (CHR ''x'') @ ''-WQ''),
      max_extraction_depth = 2, extraction_depth_limit = 2, dispatcher_timeout = 600\<rparr>"

definition ex_world :: world where
  "ex_world =
     \<lparr>clock = 1000, tables = (\<lambda>s. empty_table), results = Map.empty, errors = [],
      files = Map.empty, submissions = Map.empty, queues = (\<lambda>q. []),
      watcher_list = (\<lambda>s. []), counts = (\<lambda>c. 0), watches = [],
      quota_holds = (\<lambda>h. []), uuid_count = 0\<rparr>"

definition ex_task :: service_task where
  "ex_task =
     \<lparr>task_sid = ''A'', file_hash = ''F'', file_type = Some ''t'', depth = 0,
      parent_hash = None, service_name = ''s1'', service_config = ''cfg''\<rparr>"

definition ex_result :: result where
  "ex_result = \<lparr>score = 10, drop_file = False, extracted = [], classification = ''U''\<rparr>"

text \<open>
  The error collection with two timeouts of \<open>s1\<close> on \<open>F\<close> for submission \<open>A\<close>: as many as
  the failure limit of \<open>ex_env\<close>.
\<close>

definition timeout_error :: error where
  "timeout_error =
     \<lparr>err_sid = ''A'', err_sha256 = ''F'', err_service = ''s1'',
      err_status = ''FAIL_RECOVERABLE'', err_category = ''timeout''\<rparr>"

definition two_timeouts :: world where
  "two_timeouts = ex_world\<lparr>errors := [(''e1'', Some timeout_error), (''e2'', Some timeout_error)]\<rparr>"

text \<open>
  Submission \<open>A\<close> with the files \<open>F\<close> and \<open>G\<close>, of which only \<open>G\<close> is in the file
  collection; and submission \<open>A\<close> with the single file \<open>F\<close>.
\<close>

definition ex_params :: params where
  "ex_params = \<lparr>quota_item = False, submitter = ''u'', ignore_filtering = False\<rparr>"

definition submission_FG :: submission where
  "submission_FG =
     \<lparr>sub_sid = ''A'', sub_files = [''F'', ''G''], sub_params = ex_params, sub_state = ''submitted''\<rparr>"

definition submission_F :: submission where
  "submission_F =
     \<lparr>sub_sid = ''A'', sub_files = [''F''], sub_params = ex_params, sub_state = ''submitted''\<rparr>"

definition only_G_stored :: world where
  "only_G_stored = ex_world\<lparr>files := [''G'' \<mapsto> \<lparr>fi_sha256 = ''G'', fi_type = ''t''\<rparr>]\<rparr>"

text \<open>Tables in which \<open>s1\<close> alone, or \<open>s1\<close> and \<open>s2\<close>, are in flight on \<open>F\<close>.\<close>

definition one_in_flight :: dispatch_hash where
  "one_in_flight = dispatch 990 ''F'' ''s1'' empty_table"

definition two_in_flight :: dispatch_hash where
  "two_in_flight = dispatch 990 ''F'' ''s2'' (dispatch 990 ''F'' ''s1'' empty_table)"

text \<open>
  Scenario S1 completed: both services have finished on \<open>F\<close>, with the results \<open>r1\<close>
  (score 10) and \<open>r2\<close> (score 20) in the result store.
\<close>

definition both_finished :: dispatch_hash where
  "both_finished =
     snd (finish ''F'' ''s2'' ''r2'' (Some 20) False
            (snd (finish ''F'' ''s1'' ''r1'' (Some 10) False two_in_flight)))"

definition s1_completed :: world where
  "s1_completed =
     ex_world\<lparr>tables := (\<lambda>s. both_finished),
               files := [''F'' \<mapsto> \<lparr>fi_sha256 = ''F'', fi_type = ''t''\<rparr>],
               results := [''r1'' \<mapsto> ex_result, ''r2'' \<mapsto> ex_result\<lparr>score := 20\<rparr>]\<rparr>"

text \<open>
  The file task of \<open>F\<close>, and submission \<open>A\<close> stored with nothing dispatched yet.
\<close>

definition ex_file_task :: file_task where
  "ex_file_task =
     \<lparr>task_sid = ''A'', file_hash = ''F'', file_type = Some ''t'', depth = 0, parent_hash = None\<rparr>"

definition submitted :: world where
  "submitted =
     ex_world\<lparr>submissions := [''A'' \<mapsto> submission_F],
               files := [''F'' \<mapsto> \<lparr>fi_sha256 = ''F'', fi_type = ''t''\<rparr>]\<rparr>"

section \<open>Termination of the loop over the unchecked files\<close>

text \<open>Termination: the multiset of the distances to the depth limit decreases.\<close>

lemma add_sub_file_Inl: "foldl (add_sub_file w sub task) (Inl e) xs = Inl e"
  by (induction xs) (simp_all add: add_sub_file_def)

lemma add_sub_files_unchecked:
  "foldl (add_sub_file w sub task) (Inr st) xs = Inr st' \<Longrightarrow>
   \<exists>cs. unchecked_files st' = unchecked_files st @ cs \<and> list_all (\<lambda>c. depth c = depth task + 1) cs"
proof (induction xs arbitrary: st)
  case Nil
  then show ?case by simp
next
  case (Cons x xs)
  show ?case
  proof (cases "add_sub_file w sub task (Inr st) x")
    case (Inl e)
    with Cons.prems show ?thesis by (simp add: add_sub_file_Inl)
  next
    case (Inr st1)
    with Cons.prems have "foldl (add_sub_file w sub task) (Inr st1) xs = Inr st'" by simp
    from Cons.IH[OF this] obtain cs where
      cs: "unchecked_files st' = unchecked_files st1 @ cs" "list_all (\<lambda>c. depth c = depth task + 1) cs"
      by blast
    from Inr have "\<exists>ds. unchecked_files st1 = unchecked_files st @ ds \<and> list_all (\<lambda>c. depth c = depth task + 1) ds"
      by (auto simp: add_sub_file_def split: if_splits option.splits)
    then obtain ds where "unchecked_files st1 = unchecked_files st @ ds" "list_all (\<lambda>c. depth c = depth task + 1) ds"
      by blast
    with cs show ?thesis by (intro exI[of _ "ds @ cs"]) simp
  qed
qed

lemma check_service_Inl: "foldl (check_service env w sub task) (Inl e) xs = Inl e"
  by (induction xs) (simp_all add: check_service_def)

lemma check_service_unchecked:
  "check_service env w sub task (Inr st) s = Inr st' \<Longrightarrow>
   \<exists>cs. unchecked_files st' = unchecked_files st @ cs \<and> list_all (\<lambda>c. depth c = depth task + 1) cs
        \<and> (cs = [] \<or> depth task < extraction_depth_limit env)"
  unfolding check_service_def Let_def
  by (auto split: if_splits option.splits sum.splits dest!: add_sub_files_unchecked)

lemma check_services_unchecked:
  "foldl (check_service env w sub task) (Inr st) xs = Inr st' \<Longrightarrow>
   \<exists>cs. unchecked_files st' = unchecked_files st @ cs \<and> list_all (\<lambda>c. depth c = depth task + 1) cs
        \<and> (cs = [] \<or> depth task < extraction_depth_limit env)"
proof (induction xs arbitrary: st)
  case Nil
  then show ?case by simp
next
  case (Cons x xs)
  show ?case
  proof (cases "check_service env w sub task (Inr st) x")
    case (Inl e)
    with Cons.prems show ?thesis by (simp add: check_service_Inl)
  next
    case (Inr st1)
    with Cons.prems have "foldl (check_service env w sub task) (Inr st1) xs = Inr st'" by simp
    from Cons.IH[OF this] obtain cs where
      cs: "unchecked_files st' = unchecked_files st1 @ cs" "list_all (\<lambda>c. depth c = depth task + 1) cs"
          "cs = [] \<or> depth task < extraction_depth_limit env"
      by blast
    from check_service_unchecked[OF Inr] obtain ds where
      ds: "unchecked_files st1 = unchecked_files st @ ds" "list_all (\<lambda>c. depth c = depth task + 1) ds"
          "ds = [] \<or> depth task < extraction_depth_limit env"
      by blast
    from cs ds show ?thesis by (intro exI[of _ "ds @ cs"]) auto
  qed
qed

lemma check_file_unchecked:
  "check_file env w sub task st = Inr st' \<Longrightarrow>
   \<exists>cs. unchecked_files st' = unchecked_files st @ cs \<and> list_all (\<lambda>c. depth c = depth task + 1) cs
        \<and> (cs = [] \<or> depth task < extraction_depth_limit env)"
proof (cases "build_schedule env sub (file_type task)")
  case Nil
  assume "check_file env w sub task st = Inr st'"
  with Nil show ?thesis by (simp add: check_file_def)
next
  case (Cons stage schedule)
  assume "check_file env w sub task st = Inr st'"
  with Cons have "foldl (check_service env w sub task) (Inr st) (concat (stage # schedule)) = Inr st'"
    by (simp add: check_file_def del: concat.simps foldl_append)
  then show ?thesis by (rule check_services_unchecked)
qed

lemma check_file_decreases:
  assumes "unchecked_files st \<noteq> []"
    and "check_file env w sub (last (unchecked_files st)) (st\<lparr>unchecked_files := butlast (unchecked_files st)\<rparr>) = Inr st'"
  shows "(mset (map (weight env) (unchecked_files st')), mset (map (weight env) (unchecked_files st)))
          \<in> mult {(a, b). a < b}"
proof -
  let ?t = "last (unchecked_files st)"
  let ?b = "butlast (unchecked_files st)"
  from check_file_unchecked[OF assms(2)] obtain cs where
    cs: "unchecked_files st' = ?b @ cs" "list_all (\<lambda>c. depth c = depth ?t + 1) cs"
        "cs = [] \<or> depth ?t < extraction_depth_limit env"
    by auto
  have old: "mset (map (weight env) (unchecked_files st)) = mset (map (weight env) ?b) + {#weight env ?t#}"
    using assms(1) by (metis append_butlast_last_id map_append mset_append list.simps(8,9) mset.simps)
  have new: "mset (map (weight env) (unchecked_files st')) = mset (map (weight env) ?b) + mset (map (weight env) cs)"
    using cs(1) by simp
  have small: "\<forall>k \<in> set_mset (mset (map (weight env) cs)). \<exists>j \<in> set_mset {#weight env ?t#}. (k, j) \<in> {(a, b). a < b}"
    using cs(2,3) by (auto simp: weight_def list_all_iff)
  show ?thesis
    unfolding old new by (rule one_step_implies_mult) (use small in auto)
qed

lemma check_file_decreases_image:
  assumes "unchecked_files st \<noteq> []"
    and "check_file env w sub (last (unchecked_files st)) (st\<lparr>unchecked_files := butlast (unchecked_files st)\<rparr>) = Inr st'"
  shows "(image_mset (weight env) (mset (unchecked_files st')), image_mset (weight env) (mset (unchecked_files st)))
          \<in> mult {(a, b). a < b}"
  using check_file_decreases[OF assms] by simp

termination check_files
  apply (relation "inv_image (mult {(a, b). a < b}) (\<lambda>(env, w, sub, st). mset (map (weight env) (unchecked_files st)))")
   apply (simp add: wf_mult wf_less)
  apply (simp add: check_file_decreases_image)
  done

declare check_files.simps [simp del]

section \<open>Queue lemmas\<close>

lemma queues_push: "queues (push q m w) q' = (if q' = q then queues w q @ [m] else queues w q')"
  by (simp add: push_def)

lemma queues_push_all:
  "queues (push_all q ms w) q' = (if q' = q then queues w q @ ms else queues w q')"
  unfolding push_all_def
  by (induction ms arbitrary: w) (simp_all add: queues_push)

lemma push_frame:
  "tables (push q m w) = tables w" "watcher_list (push q m w) = watcher_list w"
  "submissions (push q m w) = submissions w" "results (push q m w) = results w"
  "errors (push q m w) = errors w" "files (push q m w) = files w"
  "clock (push q m w) = clock w" "counts (push q m w) = counts w"
  "uuid_count (push q m w) = uuid_count w" "watches (push q m w) = watches w"
  "quota_holds (push q m w) = quota_holds w"
  by (simp_all add: push_def)

lemma push_all_frame:
  "tables (push_all q ms w) = tables w" "watcher_list (push_all q ms w) = watcher_list w"
  "submissions (push_all q ms w) = submissions w" "results (push_all q ms w) = results w"
  "errors (push_all q ms w) = errors w" "files (push_all q ms w) = files w"
  "clock (push_all q ms w) = clock w" "counts (push_all q ms w) = counts w"
  "uuid_count (push_all q ms w) = uuid_count w" "watches (push_all q ms w) = watches w"
  "quota_holds (push_all q ms w) = quota_holds w"
  unfolding push_all_def
  by (induction ms arbitrary: w, simp_all add: push_frame)+

lemma file_tasks_append: "file_tasks (xs @ ys) = file_tasks xs @ file_tasks ys"
  by (induction xs rule: file_tasks.induct) simp_all

lemma wake_ups_append: "wake_ups (xs @ ys) = wake_ups xs @ wake_ups ys"
  by (induction xs rule: wake_ups.induct) simp_all

lemma file_tasks_map_File: "file_tasks (map (\<lambda>x. File (g x)) xs) = map g xs"
  by (induction xs) simp_all

lemma wake_ups_map_File: "wake_ups (map (\<lambda>x. File (g x)) xs) = []"
  by (induction xs) simp_all


lemma finish_fst: "fst (finish f s k sc d t) = remaining (snd (finish f s k sc d t))"
  by (simp add: finish_def Let_def)

section \<open>service\_finished: what reaches the queues\<close>

lemma service_finished_file_tasks:
  "file_tasks (queues (service_finished env task res w) FILE_QUEUE) =
     file_tasks (queues w FILE_QUEUE)
     @ (if depth task < max_extraction_depth env
        then map (child_task w task) (extracted res) else [])
     @ (if fst (finish (file_hash task) (service_name task) (build_key env res (config_key env task))
                  (Some (score res)) (drop_file res) (tables w (task_sid task))) = 0
        then [parent_task task] else [])"
  by (simp add: service_finished_def Let_def split_beta queues_push
      queues_push_all file_tasks_append file_tasks_map_File child_task_def)

lemma service_finished_wake_ups:
  "wake_ups (queues (service_finished env task res w) SUBMISSION_QUEUE) =
     wake_ups (queues w SUBMISSION_QUEUE)"
  by (simp add: service_finished_def Let_def split_beta queues_push
      queues_push_all wake_ups_append wake_ups_map_File FILE_QUEUE_def SUBMISSION_QUEUE_def)

lemma parent_hash_child_task: "parent_hash (child_task w task e) = Some (file_hash task)"
  by (simp add: child_task_def)

lemma parent_hash_parent_task: "parent_hash (parent_task task) = None"
  by (simp add: parent_task_def)

text \<open>
  Claim C1, as stated: \<^verbatim>\<open>service_finished\<close> pushes a file task for the parent file
  unconditionally, and pushes the sid onto the submission queue when the remaining count is
  0 and the table reports \<^verbatim>\<open>all_finished\<close>. Both parts fail. With \<open>s1\<close> and \<open>s2\<close> in
  flight on \<open>F\<close>, finishing \<open>s1\<close> leaves one cell outstanding and no task for \<open>F\<close> is pushed.
  With \<open>s1\<close> alone in flight, finishing it leaves nothing outstanding and the table
  reports \<^verbatim>\<open>all_finished\<close>, and the submission queue stays empty.
\<close>

theorem service_finished_repush_counterexample:
  "parent_task ex_task \<notin>
     set (new_file_tasks (ex_world\<lparr>tables := (\<lambda>s. two_in_flight)\<rparr>)
            (service_finished ex_env ex_task ex_result (ex_world\<lparr>tables := (\<lambda>s. two_in_flight)\<rparr>)))
   \<and> fst (finish ''F'' ''s1'' ''r.s1'' (Some 10) False one_in_flight) = 0
   \<and> all_finished
        (tables (service_finished ex_env ex_task ex_result (ex_world\<lparr>tables := (\<lambda>s. one_in_flight)\<rparr>)) ''A'')
   \<and> queues (service_finished ex_env ex_task ex_result (ex_world\<lparr>tables := (\<lambda>s. one_in_flight)\<rparr>))
        SUBMISSION_QUEUE = []"
  by (simp add: new_file_tasks_def service_finished_def ex_world_def ex_env_def ex_task_def
      ex_result_def two_in_flight_def one_in_flight_def dispatch_def finish_def set_cell_def
      cell_at_def row_of_def empty_table_def remaining_def push_def push_all_def
      Let_def FILE_QUEUE_def SUBMISSION_QUEUE_def all_finished_def)

text \<open>
  Claim C1, amended: for every service task and result, \<^verbatim>\<open>service_finished\<close> pushes
  one file task for the parent file (same sid, hash, type and depth, no parent hash)
  exactly when the count returned by the table's \<^verbatim>\<open>finish\<close> is 0, and otherwise none;
  it never pushes a wake-up onto the submission queue.
\<close>

theorem service_finished_repush:
  "filter (\<lambda>t. parent_hash t = None) (new_file_tasks w (service_finished env task res w)) =
     (if fst (finish (file_hash task) (service_name task) (build_key env res (config_key env task))
                (Some (score res)) (drop_file res) (tables w (task_sid task))) = 0
      then [parent_task task] else [])
   \<and> new_wake_ups w (service_finished env task res w) = []"
  by (simp add: new_file_tasks_def new_wake_ups_def service_finished_file_tasks
      service_finished_wake_ups parent_hash_child_task parent_hash_parent_task)

text \<open>
  Claim C5: the file tasks that \<^verbatim>\<open>service_finished\<close> adds to the file queue with a
  parent hash are, when the depth of the service task is below \<^verbatim>\<open>max_extraction_depth\<close>,
  one per extracted file, in order, each with the depth of the task plus one and the hash
  of the task's file as parent; when the depth has reached the limit there is none.
\<close>

theorem service_finished_children:
  "filter (\<lambda>t. parent_hash t \<noteq> None) (new_file_tasks w (service_finished env task res w)) =
     (if depth task < max_extraction_depth env
      then map (\<lambda>e. \<lparr>task_sid = task_sid task, file_hash = e,
                      file_type = map_option fi_type (files w e),
                      depth = depth task + 1, parent_hash = Some (file_hash task)\<rparr>) (extracted res)
      else [])"
  by (simp add: new_file_tasks_def service_finished_file_tasks parent_hash_parent_task
      child_task_def filter_map o_def)

section \<open>\_find\_results: the order of the lookups\<close>

lemma take_one_filter:
  "take (Suc 0) (map fst (filter P xs)) = (case List.find P xs of None \<Rightarrow> [] | Some d \<Rightarrow> [fst d])"
  by (induction xs) simp_all

text \<open>
  Claim C2, as stated: the sentinel \<^verbatim>\<open>"errors"\<close> is returned when the count of timeout and
  crash errors is greater than or equal to the failure limit. With no cached result, no
  terminal error and two timeouts against a limit of 2, the function returns \<^verbatim>\<open>False\<close>.
\<close>

theorem find_results_counterexample:
  "int (length (filter (error_matches ''A'' ''F'' ''s1'' [''timeout'', ''crash'']) (errors two_timeouts)))
     \<ge> service_failure_limit ex_env ''s1''
   \<and> results two_timeouts (build_result_key ex_env ''F'' ''s1'' (config_hash ex_env ''cfg'')) = None
   \<and> List.find (error_matches ''A'' ''F'' ''s1'' [''terminal'']) (errors two_timeouts) = None
   \<and> find_results ex_env two_timeouts ''A'' ''F'' ''s1'' ''cfg'' = None"
  by (simp add: find_results_def search_def error_matches_def two_timeouts_def timeout_error_def
      ex_world_def ex_env_def Let_def)

text \<open>
  Claim C2, amended: for every input, \<^verbatim>\<open>_find_results\<close> returns the result key when the
  result store holds it; otherwise the id of the first terminal error of this submission,
  file and service when there is one; otherwise the sentinel \<^verbatim>\<open>"errors"\<close> when the number
  of its timeout and crash errors is strictly greater than the failure limit of the
  service; otherwise \<^verbatim>\<open>False\<close>.
\<close>

theorem find_results_precedence:
  "find_results env w sid f s cfg =
     (if build_result_key env f s (config_hash env cfg) \<in> dom (results w)
      then Some (build_result_key env f s (config_hash env cfg))
      else (case List.find (error_matches sid f s [''terminal'']) (errors w) of
              Some doc \<Rightarrow> Some (fst doc)
            | None \<Rightarrow>
                if int (length (filter (error_matches sid f s [''timeout'', ''crash'']) (errors w)))
                     > service_failure_limit env s
                then Some ''errors'' else None))"
  by (auto simp: find_results_def search_def Let_def take_one_filter split: option.splits list.splits)

section \<open>setup\_watch\_queue\<close>

lemma watch_messages_append: "watch_messages (xs @ ys) = watch_messages xs @ watch_messages ys"
  by (induction xs rule: watch_messages.induct) simp_all

lemma watch_messages_replay: "watch_messages (map replay cs) = map replay cs"
  by (induction cs) (simp_all add: replay_def)

lemma wake_ups_replay: "wake_ups (map replay cs) = []"
  by (induction cs) (simp_all add: replay_def)

text \<open>
  Claim C8: \<^verbatim>\<open>setup_watch_queue(sid)\<close> returns the name drawn for the new reply queue and
  registers it among the watchers of the submission. The watch messages it adds to that
  queue are \<^verbatim>\<open>START\<close>, followed, when the table has neither dispatched nor finished
  cells, by \<^verbatim>\<open>STOP\<close> if the submission is absent or completed (and by nothing
  otherwise), and, when the table is not empty, by one message per status cell of
  \<^verbatim>\<open>all_results()\<close>: \<^verbatim>\<open>FAIL\<close> with the cell's key for an error cell, \<^verbatim>\<open>OK\<close> with the cell's
  key for any other. The sid is pushed onto the submission queue exactly when the table
  is empty and the submission is present and not completed.
\<close>

theorem setup_watch_queue_replay:
  "fst (setup_watch_queue env sid w) = reply_queue_name env (uuid_count w)
   \<and> fst (setup_watch_queue env sid w) \<in> set (watcher_list (snd (setup_watch_queue env sid w)) sid)
   \<and> watch_messages (queues (snd (setup_watch_queue env sid w)) (fst (setup_watch_queue env sid w))) =
       watch_messages (queues w (fst (setup_watch_queue env sid w)))
       @ Watch START None
       # (if dispatch_count (tables w sid) = 0 \<and> finished_count (tables w sid) = 0
          then (if (case submissions w sid of None \<Rightarrow> True
                    | Some submission \<Rightarrow> sub_state submission = ''completed'')
                then [Watch STOP None] else [])
          else map (\<lambda>status. if cell_is_error status then Watch FAIL (Some (cell_key status))
                              else Watch OK (Some (cell_key status)))
                 (concat (map (\<lambda>entry. map snd (snd entry)) (all_results (tables w sid)))))
   \<and> wake_ups (queues (snd (setup_watch_queue env sid w)) SUBMISSION_QUEUE) =
       wake_ups (queues w SUBMISSION_QUEUE)
       @ (if dispatch_count (tables w sid) = 0 \<and> finished_count (tables w sid) = 0
             \<and> \<not> (case submissions w sid of None \<Rightarrow> True
                    | Some submission \<Rightarrow> sub_state submission = ''completed'')
          then [sid] else [])"
proof -
  let ?qn = "reply_queue_name env (uuid_count w)"
  let ?w2 = "(push ?qn (Watch START None) (w\<lparr>uuid_count := Suc (uuid_count w)\<rparr>))
              \<lparr>watcher_list := (watcher_list w)(sid := set_add ?qn (watcher_list w sid))\<rparr>"
  have r: "map replay cs = map (\<lambda>status. if cell_is_error status then Watch FAIL (Some (cell_key status))
                              else Watch OK (Some (cell_key status))) cs" for cs
    by (simp add: replay_def)
  have c: "status_cells xs = concat (map (\<lambda>entry. map snd (snd entry)) xs)"
    for xs :: "(sha256 \<times> (service \<times> cell) list) list"
    by (simp add: status_cells_def split_def)
  have name: "fst (setup_watch_queue env sid w) = ?qn"
    by (simp add: setup_watch_queue_def Let_def split: option.splits)
  have mem: "?qn \<in> set (watcher_list (snd (setup_watch_queue env sid w)) sid)"
    by (simp add: setup_watch_queue_def Let_def push_frame push_all_frame set_add_def
        split: option.splits)
  have watch: "watch_messages (queues (snd (setup_watch_queue env sid w)) ?qn) =
       watch_messages (queues w ?qn)
       @ Watch START None
       # (if dispatch_count (tables w sid) = 0 \<and> finished_count (tables w sid) = 0
          then (if (case submissions w sid of None \<Rightarrow> True
                    | Some submission \<Rightarrow> sub_state submission = ''completed'')
                then [Watch STOP None] else [])
          else map replay (status_cells (all_results (tables w sid))))"
    by (simp add: setup_watch_queue_def Let_def push_frame push_all_frame queues_push
        queues_push_all watch_messages_append watch_messages_replay split: option.splits)
  have wake: "wake_ups (queues (snd (setup_watch_queue env sid w)) SUBMISSION_QUEUE) =
       wake_ups (queues w SUBMISSION_QUEUE)
       @ (if dispatch_count (tables w sid) = 0 \<and> finished_count (tables w sid) = 0
             \<and> \<not> (case submissions w sid of None \<Rightarrow> True
                    | Some submission \<Rightarrow> sub_state submission = ''completed'')
          then [sid] else [])"
    by (simp add: setup_watch_queue_def Let_def push_frame push_all_frame queues_push
        queues_push_all wake_ups_append wake_ups_replay split: option.splits)
  show ?thesis
    unfolding name using mem watch wake by (simp only: r c)
qed

section \<open>outstanding\_services\<close>

lemma map_of_filter_fst:
  "map_of (filter (\<lambda>e. P (fst e)) xs) k = (if P k then map_of xs k else None)"
  by (induction xs) auto

lemma foldl_cong_set:
  "(\<And>a x. x \<in> set xs \<Longrightarrow> f a x = g a x) \<Longrightarrow> foldl f a xs = foldl g a xs"
  by (induction xs arbitrary: a) simp_all

text \<open>
  Claim C10: \<^verbatim>\<open>outstanding_services\<close> counts only over the files of \<^verbatim>\<open>all_results()\<close>:
  the cached schedules of files without a status cell can be removed without changing
  the result, and when the table has no cell the result is empty whatever schedules are
  cached, that is, whatever services are still owed.
\<close>

theorem outstanding_services_only_recorded_files:
  "outstanding_services t =
     outstanding_services (t\<lparr>schedules := filter (\<lambda>e. fst e \<in> fst ` set (cells t)) (schedules t)\<rparr>)
   \<and> outstanding_services (t\<lparr>cells := []\<rparr>) = []"
proof -
  have "foldl (count_file t) [] (cells t) =
        foldl (count_file (t\<lparr>schedules := filter (\<lambda>e. fst e \<in> fst ` set (cells t)) (schedules t)\<rparr>)) [] (cells t)"
    by (rule foldl_cong_set)
      (force simp: count_file_def map_of_filter_fst[where P="\<lambda>k. k \<in> fst ` set (cells t)"])
  then show ?thesis by (simp add: outstanding_services_def all_results_def)
qed

section \<open>dispatch\_file\<close>

lemma cell_at_set_cell:
  "cell_at (set_cell f s c t) f' s' = (if f' = f \<and> s' = s then Some c else cell_at t f' s')"
  by (simp add: set_cell_def cell_at_def row_of_def AList.update_conv')

lemma cell_at_dispatch:
  "cell_at (dispatch now f s t) f' s' = (if f' = f \<and> s' = s then Some (Dispatched now) else cell_at t f' s')"
  by (simp add: dispatch_def cell_at_set_cell) (simp add: cell_at_def row_of_def)

lemma service_queue_name_inj: "service_queue_name s = service_queue_name s' \<longleftrightarrow> s = s'"
  by (simp add: service_queue_name_def)

lemma touch_frame:
  "tables (touch env s w) = tables w" "results (touch env s w) = results w"
  "errors (touch env s w) = errors w" "files (touch env s w) = files w"
  "clock (touch env s w) = clock w" "queues (touch env s w) = queues w"
  "counts (touch env s w) = counts w" "submissions (touch env s w) = submissions w"
  by (simp_all add: touch_def)

lemma dispatch_service_clock: "clock (dispatch_service env task w e) = clock w"
  by (simp add: dispatch_service_def Let_def push_frame)

lemma dispatch_service_queue:
  "queues (dispatch_service env task w e) (service_queue_name s) =
     queues w (service_queue_name s)
     @ (if s = fst e \<and> \<not> in_flight env task w s
        then [Service (make_service_task env task s (snd e))] else [])"
  by (auto simp: dispatch_service_def in_flight_def Let_def queues_push service_queue_name_inj)

lemma dispatch_service_cell:
  "cell_at (tables (dispatch_service env task w e) (task_sid task)) (file_hash task) s =
     (if s = fst e \<and> \<not> in_flight env task w s then Some (Dispatched (clock w))
      else cell_at (tables w (task_sid task)) (file_hash task) s)"
  by (auto simp: dispatch_service_def in_flight_def Let_def push_frame cell_at_dispatch)

lemma dispatch_service_in_flight:
  "s \<noteq> fst e \<Longrightarrow> in_flight env task (dispatch_service env task w e) s = in_flight env task w s"
  by (simp add: in_flight_def dispatch_service_clock dispatch_time_def dispatch_service_cell)

lemma dispatch_loop:
  assumes "distinct (map fst out)"
  shows "queues (foldl (dispatch_service env task) w out) (service_queue_name s) =
           queues w (service_queue_name s)
           @ (case map_of out s of
                None \<Rightarrow> []
              | Some cfg \<Rightarrow> if in_flight env task w s then []
                            else [Service (make_service_task env task s cfg)])
         \<and> cell_at (tables (foldl (dispatch_service env task) w out) (task_sid task)) (file_hash task) s =
            (case map_of out s of
               None \<Rightarrow> cell_at (tables w (task_sid task)) (file_hash task) s
             | Some cfg \<Rightarrow> if in_flight env task w s
                           then cell_at (tables w (task_sid task)) (file_hash task) s
                           else Some (Dispatched (clock w)))"
  using assms
proof (induction out arbitrary: w)
  case Nil
  then show ?case by simp
next
  case (Cons e out)
  from Cons.prems have d: "distinct (map fst out)" and n: "map_of out (fst e) = None"
    by (auto simp: map_of_eq_None_iff)
  note IH = Cons.IH[OF d, of "dispatch_service env task w e"]
  show ?case
  proof (cases "s = fst e")
    case True
    with IH n show ?thesis
      by (cases e) (simp add: dispatch_service_queue dispatch_service_cell)
  next
    case False
    with IH show ?thesis
      by (cases e) (simp add: dispatch_service_queue dispatch_service_cell dispatch_service_in_flight
          dispatch_service_clock split: option.splits)
  qed
qed

lemma both_finished_cells:
  "both_finished = \<lparr>cells = [(''F'', [(''s1'', Finished ''r1'' (Some 10) False), (''s2'', Finished ''r2'' (Some 20) False)])],
     schedules = [], dispatch_count = 2, finished_count = 2\<rparr>"
  by (simp add: both_finished_def two_in_flight_def dispatch_def finish_def set_cell_def
      cell_at_def row_of_def empty_table_def remaining_def Let_def)

lemma increment_frame:
  "queues (increment n w) = queues w" "tables (increment n w) = tables w"
  "clock (increment n w) = clock w"
  by (simp_all add: increment_def)


text \<open>The walk writes nothing: when it returns, the state is the one it started from but for the flag.\<close>

lemma walk_service_Inl: "foldl (walk_service sub f) (Inl e) stage = Inl e"
  by (induction stage) (simp_all add: walk_service_def)

lemma walk_service_keeps:
  "walk_service sub f (Inr st) s = Inr st' \<Longrightarrow>
   outstanding st' = outstanding st \<and> tasks_remaining st' = tasks_remaining st
   \<and> process_table st' = process_table st"
  by (auto simp: walk_service_def split: if_splits)

lemma stage_keeps:
  "foldl (walk_service sub f) (Inr st) stage = Inr st' \<Longrightarrow>
   outstanding st' = outstanding st \<and> tasks_remaining st' = tasks_remaining st
   \<and> process_table st' = process_table st"
proof (induction stage arbitrary: st)
  case Nil
  then show ?case by simp
next
  case (Cons s stage)
  show ?case
  proof (cases "walk_service sub f (Inr st) s")
    case (Inl e)
    with Cons.prems show ?thesis by (simp add: walk_service_Inl)
  next
    case (Inr st1)
    with Cons.prems have "foldl (walk_service sub f) (Inr st1) stage = Inr st'" by simp
    from Cons.IH[OF this] walk_service_keeps[OF Inr] show ?thesis by simp
  qed
qed

lemma walk_keeps:
  "walk sub f sch st = Inr st' \<Longrightarrow>
   outstanding st' = outstanding st \<and> tasks_remaining st' = tasks_remaining st
   \<and> process_table st' = process_table st"
proof (induction sch arbitrary: st)
  case Nil
  then show ?case by simp
next
  case (Cons stage sch)
  show ?case
  proof (cases "outstanding st = []")
    case False
    with Cons.prems show ?thesis by simp
  next
    case True
    show ?thesis
    proof (cases "foldl (walk_service sub f) (Inr st) stage")
      case (Inl e)
      with Cons.prems True show ?thesis by simp
    next
      case (Inr st1)
      note k = stage_keeps[OF Inr]
      show ?thesis
      proof (cases "cleared st1")
        case True
        with Cons.prems \<open>outstanding st = []\<close> Inr k show ?thesis by simp
      next
        case False
        with Cons.prems \<open>outstanding st = []\<close> Inr have "walk sub f sch st1 = Inr st'" by simp
        from Cons.IH[OF this] k show ?thesis by simp
      qed
    qed
  qed
qed

lemma found_keeps:
  "found env sub task w = Inr st \<Longrightarrow>
   outstanding st = [] \<and> tasks_remaining st = 0 \<and> process_table st = tables w (task_sid task)"
  unfolding found_def by (drule walk_keeps) simp

lemma found_tables:
  "tables w' (task_sid task) = tables w (task_sid task) \<Longrightarrow> found env sub task w' = found env sub task w"
  by (simp add: found_def)

lemma found_touch: "found env sub task (touch env' s w) = found env sub task w"
  by (rule found_tables) (simp add: touch_frame)

text \<open>What \<^verbatim>\<open>dispatch_file\<close> does, by the outcome of the walk.\<close>

lemma dispatch_file_body_raises:
  "found env sub task w = Inl e \<Longrightarrow>
   dispatch_file_body env sub task w = Inl (e, touch env (task_sid task) w)"
  by (simp add: dispatch_file_body_def Let_def found_touch)

lemma dispatch_file_body_returns:
  assumes "found env sub task w = Inr st"
  shows "dispatch_file_body env sub task w =
     Inr (if all_finished (tables w (task_sid task))
          then push SUBMISSION_QUEUE (Sid (sub_sid sub))
                 (increment ''dispatch.files_completed'' (touch env (task_sid task) w))
          else increment ''dispatch.files_completed'' (touch env (task_sid task) w))"
proof -
  from found_keeps[OF assms] have k: "outstanding st = []" "tasks_remaining st = 0"
    "process_table st = tables w (task_sid task)" by simp_all
  have t: "(touch env (task_sid task) w)\<lparr>tables := tables w\<rparr> = touch env (task_sid task) w"
    by (simp add: touch_def)
  show ?thesis
    by (simp add: dispatch_file_body_def Let_def found_touch assms k touch_frame t)
qed

lemma dispatch_file_Some:
  "submissions w (task_sid task) = Some sub \<Longrightarrow>
   dispatch_file env task w = dispatch_file_body env sub task w"
  by (simp add: dispatch_file_def)

lemma found_submitted: "found ex_env submission_F ex_file_task submitted = Inl AttributeError"
  by (simp add: found_def walk_service_def truthy_def finished_def cell_at_def row_of_def
      empty_table_def submitted_def ex_world_def ex_env_def ex_file_task_def)

text \<open>
  Claim C3 at a failing input: submission \<open>A\<close> is stored, its file \<open>F\<close> has the schedule
  \<open>s1\<close> then \<open>s2\<close>, and nothing is dispatched or finished, so that \<open>s1\<close> is neither finished
  nor within its timeout. The walk reaches \<open>s1\<close> and raises at line 350: the call ends in an AttributeError with the
  watch refreshed, the queue \<^verbatim>\<open>service-queue-s1\<close> empty and the table without a cell for
  \<open>s1\<close>. The loop of lines 392-407 is not reached.
\<close>

theorem dispatch_file_raises_before_dispatch:
  "finished (tables submitted ''A'') ''F'' ''s1'' = None
   \<and> \<not> in_flight ex_env ex_file_task submitted ''s1''
   \<and> dispatch_file ex_env ex_file_task submitted = Inl (AttributeError, touch ex_env ''A'' submitted)
   \<and> queues (state_left (dispatch_file ex_env ex_file_task submitted)) (service_queue_name ''s1'') = []
   \<and> cell_at (tables (state_left (dispatch_file ex_env ex_file_task submitted)) ''A'') ''F'' ''s1'' = None"
proof -
  have s: "submissions submitted (task_sid ex_file_task) = Some submission_F"
    by (simp add: submitted_def ex_file_task_def ex_world_def)
  have t: "task_sid ex_file_task = ''A''" by (simp add: ex_file_task_def)
  have p: "finished (tables submitted ''A'') ''F'' ''s1'' = None"
    "\<not> in_flight ex_env ex_file_task submitted ''s1''"
    by (simp_all add: submitted_def ex_world_def ex_env_def ex_file_task_def in_flight_def
        finished_def dispatch_time_def cell_at_def row_of_def empty_table_def)
  show ?thesis
    by (simp add: p dispatch_file_Some[OF s] dispatch_file_body_raises[OF found_submitted] t
        touch_frame)
       (simp add: submitted_def ex_world_def cell_at_def row_of_def empty_table_def)
qed



section \<open>dispatch\_submission\<close>

text \<open>
  Claim C6 at a failing input: submission \<open>A\<close> lists \<open>F\<close>, which the file collection does
  not hold, and \<open>G\<close>, which it holds. The document built for \<open>F\<close> has the status
  \<^verbatim>\<open>FAIL_NONRECOVERABLE\<close>, but \<^verbatim>\<open>create_missing_file_error\<close> does not return it: the error
  collection receives \<^verbatim>\<open>None\<close> under the new id. No task is made for \<open>F\<close>, and \<open>G\<close> is
  still seeded.
\<close>

theorem missing_file_error_not_saved:
  "errors (fst (seed_files ex_env submission_FG only_G_stored)) = [(''e'', None)]
   \<and> err_status (missing_file_error submission_FG ''F'') = ''FAIL_NONRECOVERABLE''
   \<and> snd (seed_files ex_env submission_FG only_G_stored) =
       [\<lparr>task_sid = ''A'', file_hash = ''G'', file_type = Some ''t'', depth = 0, parent_hash = None\<rparr>]"
  by (simp add: seed_files_def seed_file_def save_error_def create_missing_file_error_def
      missing_file_error_def submission_FG_def only_G_stored_def ex_world_def ex_env_def Let_def)

text \<open>
  Claim C7 at a failing input: both services of \<open>F\<close> have finished with the scores 10 and
  20. With a depth limit of 0 the file is at the limit and \<^verbatim>\<open>finalize_submission\<close> is called
  with no classification and no score; with a depth limit of 2 it is called with both
  classifications and the score 20.
\<close>

theorem depth_limit_drops_scores:
  "finalize_call (dispatch_submission (ex_env\<lparr>extraction_depth_limit := 0\<rparr>) submission_F s1_completed)
     = Some ([], None)
   \<and> finalize_call (dispatch_submission ex_env submission_F s1_completed)
     = Some ([''U'', ''U''], Some 20)"
  by (simp add: dispatch_submission_def seed_files_def seed_file_def initial_check_def
      check_files.simps check_file_def check_service_def add_sub_file_def
      refresh_quota_def touch_def submission_F_def ex_params_def s1_completed_def both_finished_cells
      ex_world_def ex_env_def ex_result_def Let_def
      dispatch_time_def finished_def cell_at_def row_of_def truthy_def)

section \<open>Redelivery: dispatch\_submission\<close>

lemma same_view_refl: "same_view w w"
  by (simp add: same_view_def)

lemma same_view_trans: "same_view a b \<Longrightarrow> same_view b c \<Longrightarrow> same_view a c"
  by (simp add: same_view_def)

lemma same_view_sym: "same_view a b \<Longrightarrow> same_view b a"
  by (simp add: same_view_def)

lemma add_sub_file_view:
  assumes "same_view w w'"
  shows "add_sub_file w' = add_sub_file w"
proof -
  from assms have v: "files w' = files w" by (simp add: same_view_def)
  show ?thesis by (intro ext) (simp only: add_sub_file_def v)
qed

lemma check_service_view:
  assumes "same_view w w'"
  shows "check_service env w' = check_service env w"
proof -
  from assms have v: "tables w' = tables w" "results w' = results w" "clock w' = clock w"
    by (simp_all add: same_view_def)
  show ?thesis
    by (intro ext) (simp only: check_service_def add_sub_file_view[OF assms] v)
qed

lemma check_file_view:
  assumes "same_view w w'"
  shows "check_file env w' = check_file env w"
  by (intro ext) (simp only: check_file_def check_service_view[OF assms])

lemma check_files_view:
  "same_view w w' \<Longrightarrow> check_files env w' sub st = check_files env w sub st"
proof (induction env w sub st rule: check_files.induct)
  case (1 env w sub st)
  note cf = check_file_view[OF "1.prems", of env]
  show ?case
  proof (cases "unchecked_files st = []")
    case True
    then show ?thesis by (simp add: check_files.simps[of env w'] check_files.simps[of env w])
  next
    case False
    show ?thesis
    proof (cases "check_file env w sub (last (unchecked_files st))
                    (st\<lparr>unchecked_files := butlast (unchecked_files st)\<rparr>)")
      case (Inl e)
      with False show ?thesis
        by (simp add: check_files.simps[of env w'] check_files.simps[of env w] cf)
    next
      case (Inr st')
      from "1.IH"[OF False Inr "1.prems"] False Inr show ?thesis
        by (simp add: check_files.simps[of env w' sub st] check_files.simps[of env w sub st] cf)
    qed
  qed
qed

lemma touch_view: "same_view w (touch env s w)"
  by (simp add: same_view_def touch_def)

lemma refresh_quota_view: "same_view w (refresh_quota sub w)"
  by (simp add: same_view_def refresh_quota_def)

lemma push_all_view: "same_view w (push_all q ms w)"
  by (simp add: same_view_def push_all_frame)

lemma seed_file_view: "same_view (fst acc) (fst (seed_file env sub acc fh))"
  by (simp add: same_view_def seed_file_def save_error_def split: option.splits)

lemma seed_files_fold_view:
  "same_view (fst acc) (fst (foldl (seed_file env sub) acc fhs))"
proof (induction fhs arbitrary: acc)
  case Nil
  then show ?case by (simp add: same_view_refl)
next
  case (Cons fh fhs)
  have "same_view (fst acc) (fst (seed_file env sub acc fh))" by (rule seed_file_view)
  moreover have "same_view (fst (seed_file env sub acc fh))
      (fst (foldl (seed_file env sub) (seed_file env sub acc fh) fhs))" by (rule Cons.IH)
  ultimately show ?case by (simp add: same_view_def)
qed

lemma seed_files_view: "same_view w (fst (seed_files env sub w))"
  using seed_files_fold_view[of "(w, [])" env sub "sub_files sub"] by (simp add: seed_files_def)

lemma seed_file_tasks:
  "files (fst acc') = files (fst acc) \<Longrightarrow> snd acc' = snd acc \<Longrightarrow>
   snd (seed_file env sub acc' fh) = snd (seed_file env sub acc fh)
   \<and> files (fst (seed_file env sub acc' fh)) = files (fst (seed_file env sub acc fh))"
  by (simp add: seed_file_def save_error_def split: option.splits)

lemma seed_files_fold_tasks:
  "files (fst acc') = files (fst acc) \<Longrightarrow> snd acc' = snd acc \<Longrightarrow>
   snd (foldl (seed_file env sub) acc' fhs) = snd (foldl (seed_file env sub) acc fhs)"
proof (induction fhs arbitrary: acc acc')
  case Nil
  then show ?case by simp
next
  case (Cons fh fhs)
  from seed_file_tasks[OF Cons.prems, of env sub fh]
  have "snd (foldl (seed_file env sub) (seed_file env sub acc' fh) fhs) =
        snd (foldl (seed_file env sub) (seed_file env sub acc fh) fhs)"
    by (intro Cons.IH) simp_all
  then show ?case by simp
qed

lemma seed_files_tasks:
  "same_view w w' \<Longrightarrow> snd (seed_files env sub w') = snd (seed_files env sub w)"
  unfolding seed_files_def by (rule seed_files_fold_tasks) (simp_all add: same_view_def)

lemma prepared_view: "same_view w (refresh_quota sub (touch env (sub_sid sub) w))"
  using touch_view[of w env "sub_sid sub"] refresh_quota_view[of "touch env (sub_sid sub) w" sub]
  by (rule same_view_trans)

lemma seeded_view:
  "same_view w (fst (seed_files env sub (refresh_quota sub (touch env (sub_sid sub) w))))"
  using prepared_view[of w sub env]
    seed_files_view[of "refresh_quota sub (touch env (sub_sid sub) w)" env sub]
  by (rule same_view_trans)


lemma dispatch_submission_eq:
  "dispatch_submission env sub w =
     (let w2 = fst (seed_files env sub (refresh_quota sub (touch env (sub_sid sub) w)));
          unchecked = snd (seed_files env sub (refresh_quota sub (touch env (sub_sid sub) w)))
      in case check_files env w sub (initial_check sub unchecked) of
           Inl e \<Rightarrow> Inl e
         | Inr st \<Rightarrow>
             if pending_files st \<noteq> []
             then Inr (Pending (push_all FILE_QUEUE (map (\<lambda>entry. File (snd entry)) (pending_files st)) w2))
             else Inr (Finalize w2 (result_classifications st) (max_score st)))"
  by (simp add: dispatch_submission_def Let_def split_beta check_files_view[OF seeded_view])

lemma dispatch_submission_view:
  assumes "dispatch_submission env sub w = Inr out"
  shows "same_view w (outcome_world out)"
proof -
  let ?w2 = "fst (seed_files env sub (refresh_quota sub (touch env (sub_sid sub) w)))"
  let ?u = "snd (seed_files env sub (refresh_quota sub (touch env (sub_sid sub) w)))"
  have v: "same_view w ?w2"
    by (rule seeded_view)
  show ?thesis
  proof (cases "check_files env w sub (initial_check sub ?u)")
    case (Inl e)
    with assms show ?thesis by (simp add: dispatch_submission_eq Let_def)
  next
    case (Inr st)
    show ?thesis
    proof (cases "pending_files st = []")
      case True
      with assms Inr have "out = Finalize ?w2 (result_classifications st) (max_score st)"
        by (simp add: dispatch_submission_eq Let_def)
      with v show ?thesis by simp
    next
      case False
      with assms Inr have
        "out = Pending (push_all FILE_QUEUE (map (\<lambda>entry. File (snd entry)) (pending_files st)) ?w2)"
        by (simp add: dispatch_submission_eq Let_def)
      then show ?thesis
        using same_view_trans[OF v push_all_view[of ?w2 FILE_QUEUE
                "map (\<lambda>entry. File (snd entry)) (pending_files st)"]]
        by simp
    qed
  qed
qed

lemma dispatch_submission_again:
  assumes "same_view w w'"
  shows "finalize_call (dispatch_submission env sub w') = finalize_call (dispatch_submission env sub w)"
proof -
  have u: "snd (seed_files env sub (refresh_quota sub (touch env (sub_sid sub) w'))) =
           snd (seed_files env sub (refresh_quota sub (touch env (sub_sid sub) w)))"
  proof (rule seed_files_tasks)
    have a: "same_view (refresh_quota sub (touch env (sub_sid sub) w)) w"
      using prepared_view[of w sub env] by (rule same_view_sym)
    have b: "same_view w' (refresh_quota sub (touch env (sub_sid sub) w'))"
      by (rule prepared_view)
    from same_view_trans[OF a same_view_trans[OF assms b]]
    show "same_view (refresh_quota sub (touch env (sub_sid sub) w))
            (refresh_quota sub (touch env (sub_sid sub) w'))" .
  qed
  show ?thesis
    by (simp add: dispatch_submission_eq[of env sub w'] dispatch_submission_eq[of env sub w]
        Let_def u check_files_view[OF assms] split: sum.splits)
qed

lemma s1_completed_outcome:
  "dispatch_submission ex_env submission_F s1_completed =
     Inr (Finalize (fst (seed_files ex_env submission_F
                           (refresh_quota submission_F (touch ex_env (sub_sid submission_F) s1_completed))))
            [''U'', ''U''] (Some 20))"
proof -
  have u: "snd (seed_files ex_env submission_F
                 (refresh_quota submission_F (touch ex_env (sub_sid submission_F) s1_completed))) =
           [\<lparr>task_sid = ''A'', file_hash = ''F'', file_type = Some ''t'', depth = 0, parent_hash = None\<rparr>]"
    by (simp add: seed_files_def seed_file_def refresh_quota_def touch_def submission_F_def
        ex_params_def s1_completed_def ex_world_def)
  have c: "check_files ex_env s1_completed submission_F
             (initial_check submission_F
                [\<lparr>task_sid = ''A'', file_hash = ''F'', file_type = Some ''t'', depth = 0, parent_hash = None\<rparr>]) =
           Inr \<lparr>unchecked_files = [], encountered_files = {''F''}, pending_files = [],
                max_score = Some 20, result_classifications = [''U'', ''U'']\<rparr>"
    by (simp add: initial_check_def check_files.simps check_file_def check_service_def
        add_sub_file_def submission_F_def ex_params_def s1_completed_def both_finished_cells
        ex_world_def ex_env_def ex_result_def Let_def dispatch_time_def finished_def cell_at_def
        row_of_def truthy_def)
  show ?thesis
    by (simp add: dispatch_submission_eq Let_def u c)
qed


lemma seeded_state_view: "same_view w (seeded env sub w)"
  unfolding seeded_def by (rule seeded_view)

lemma dispatch_submission_failure_again:
  assumes "same_view w w'"
  shows "failure (dispatch_submission env sub w') = failure (dispatch_submission env sub w)"
proof -
  have u: "snd (seed_files env sub (refresh_quota sub (touch env (sub_sid sub) w'))) =
           snd (seed_files env sub (refresh_quota sub (touch env (sub_sid sub) w)))"
  proof (rule seed_files_tasks)
    have a: "same_view (refresh_quota sub (touch env (sub_sid sub) w)) w"
      using prepared_view[of w sub env] by (rule same_view_sym)
    have b: "same_view w' (refresh_quota sub (touch env (sub_sid sub) w'))"
      by (rule prepared_view)
    from same_view_trans[OF a same_view_trans[OF assms b]]
    show "same_view (refresh_quota sub (touch env (sub_sid sub) w))
            (refresh_quota sub (touch env (sub_sid sub) w'))" .
  qed
  show ?thesis
    by (simp add: dispatch_submission_eq[of env sub w'] dispatch_submission_eq[of env sub w]
        Let_def u check_files_view[OF assms] split: sum.splits)
qed

lemma submission_state_left_view: "same_view w (submission_state_left env sub w)"
proof (cases "dispatch_submission env sub w")
  case (Inl e)
  then show ?thesis by (simp add: submission_state_left_def seeded_state_view)
next
  case (Inr out)
  from dispatch_submission_view[OF Inr] Inr show ?thesis
    by (simp add: submission_state_left_def)
qed

text \<open>
  A later clock reading. A cell that is not \<^verbatim>\<open>Dispatched\<close> has the dispatch time 0, so
  its age is the clock reading itself; when the clock reading is at least every service
  timeout, as a reading of \<^verbatim>\<open>time.time()\<close> is, such a cell is never taken for one in
  progress. A \<^verbatim>\<open>Dispatched\<close> cell makes the file pending whether it has timed out or not.
\<close>

lemma check_service_clock:
  assumes "\<forall>s. service_timeout env s \<le> clock w" and "clock w \<le> now"
  shows "check_service env (w\<lparr>clock := now\<rparr>) sub task acc s = check_service env w sub task acc s"
proof (cases acc)
  case (Inl e)
  then show ?thesis by (simp add: check_service_def)
next
  case (Inr st)
  have a: "\<not> clock w < service_timeout env s" "\<not> now < service_timeout env s"
    using assms by (auto simp: not_less intro: order_trans)
  have f: "add_sub_file (w\<lparr>clock := now\<rparr>) = add_sub_file w"
    by (intro ext) (simp add: add_sub_file_def split: sum.splits)
  show ?thesis
  proof (cases "cell_at (tables w (sub_sid sub)) (file_hash task) s")
    case None
    with Inr a show ?thesis
      by (simp add: check_service_def Let_def dispatch_time_def finished_def truthy_def)
  next
    case (Some c)
    with Inr a f show ?thesis
      by (cases c)
         (simp_all add: check_service_def Let_def dispatch_time_def finished_def truthy_def
            split: option.splits)
  qed
qed

lemma check_file_clock:
  assumes "\<forall>s. service_timeout env s \<le> clock w" and "clock w \<le> now"
  shows "check_file env (w\<lparr>clock := now\<rparr>) sub task st = check_file env w sub task st"
proof -
  have "check_service env (w\<lparr>clock := now\<rparr>) sub task = check_service env w sub task"
    by (intro ext) (rule check_service_clock[OF assms])
  then show ?thesis by (simp only: check_file_def)
qed

lemma check_files_clock:
  "\<forall>s. service_timeout env s \<le> clock w \<Longrightarrow> clock w \<le> now \<Longrightarrow>
   check_files env (w\<lparr>clock := now\<rparr>) sub st = check_files env w sub st"
proof (induction env w sub st rule: check_files.induct)
  case (1 env w sub st)
  note cf = check_file_clock[OF "1.prems", of sub]
  show ?case
  proof (cases "unchecked_files st = []")
    case True
    then show ?thesis
      by (simp add: check_files.simps[of env "w\<lparr>clock := now\<rparr>"] check_files.simps[of env w])
  next
    case False
    show ?thesis
    proof (cases "check_file env w sub (last (unchecked_files st))
                    (st\<lparr>unchecked_files := butlast (unchecked_files st)\<rparr>)")
      case (Inl e)
      with False show ?thesis
        by (simp add: check_files.simps[of env "w\<lparr>clock := now\<rparr>"] check_files.simps[of env w] cf)
    next
      case (Inr st')
      from "1.IH"[OF False Inr "1.prems"] False Inr show ?thesis
        by (simp add: check_files.simps[of env "w\<lparr>clock := now\<rparr>" sub st]
            check_files.simps[of env w sub st] cf)
    qed
  qed
qed

lemma seed_files_tasks_files:
  "files w' = files w \<Longrightarrow> snd (seed_files env sub w') = snd (seed_files env sub w)"
  unfolding seed_files_def by (rule seed_files_fold_tasks) simp_all

lemma dispatch_submission_later:
  assumes "\<forall>s. service_timeout env s \<le> clock w" and "clock w \<le> now"
  shows "dispatch_submission env sub (w\<lparr>clock := now\<rparr>) = Inl e \<longleftrightarrow> dispatch_submission env sub w = Inl e"
    and "finalize_call (dispatch_submission env sub (w\<lparr>clock := now\<rparr>)) =
         finalize_call (dispatch_submission env sub w)"
proof -
  have u: "snd (seed_files env sub (refresh_quota sub (touch env (sub_sid sub) (w\<lparr>clock := now\<rparr>)))) =
           snd (seed_files env sub (refresh_quota sub (touch env (sub_sid sub) w)))"
    by (rule seed_files_tasks_files) (simp add: refresh_quota_def touch_def)
  note c = check_files_clock[OF assms, of sub]
  show "dispatch_submission env sub (w\<lparr>clock := now\<rparr>) = Inl e \<longleftrightarrow> dispatch_submission env sub w = Inl e"
    by (simp add: dispatch_submission_eq[of env sub "w\<lparr>clock := now\<rparr>"] dispatch_submission_eq[of env sub w]
        Let_def u c split: sum.splits)
  show "finalize_call (dispatch_submission env sub (w\<lparr>clock := now\<rparr>)) =
         finalize_call (dispatch_submission env sub w)"
    by (simp add: dispatch_submission_eq[of env sub "w\<lparr>clock := now\<rparr>"] dispatch_submission_eq[of env sub w]
        Let_def u c split: sum.splits)
qed

lemma failure_eq: "(\<And>e. r = Inl e \<longleftrightarrow> r' = Inl e) \<Longrightarrow> failure r = failure r'"
  by (cases r; cases r') auto

text \<open>\<^verbatim>\<open>dispatch_file\<close> reads the submission and the table of the task, and nothing else.\<close>

lemma dispatch_file_tables: "tables (state_left (dispatch_file env task w)) = tables w"
proof (cases "submissions w (task_sid task)")
  case None
  then show ?thesis by (simp add: dispatch_file_def touch_frame)
next
  case (Some sub)
  show ?thesis
  proof (cases "found env sub task w")
    case (Inl e)
    then show ?thesis
      by (simp add: dispatch_file_Some[OF Some] dispatch_file_body_raises touch_frame)
  next
    case (Inr st)
    then show ?thesis
      by (simp add: dispatch_file_Some[OF Some] dispatch_file_body_returns[OF Inr] push_frame
          increment_frame touch_frame)
  qed
qed

lemma dispatch_file_submissions: "submissions (state_left (dispatch_file env task w)) = submissions w"
proof (cases "submissions w (task_sid task)")
  case None
  then show ?thesis by (simp add: dispatch_file_def touch_frame)
next
  case (Some sub)
  show ?thesis
  proof (cases "found env sub task w")
    case (Inl e)
    then show ?thesis
      by (simp add: dispatch_file_Some[OF Some] dispatch_file_body_raises touch_frame)
  next
    case (Inr st)
    then show ?thesis
      by (simp add: dispatch_file_Some[OF Some] dispatch_file_body_returns[OF Inr] push_frame
          touch_frame increment_def)
  qed
qed

lemma dispatch_file_raised:
  "raised (dispatch_file env task w) =
     (case submissions w (task_sid task) of
        None \<Rightarrow> Some AttributeError
      | Some sub \<Rightarrow> (case found env sub task w of Inl e \<Rightarrow> Some e | Inr st \<Rightarrow> None))"
proof (cases "submissions w (task_sid task)")
  case None
  then show ?thesis by (simp add: dispatch_file_def)
next
  case (Some sub)
  show ?thesis
  proof (cases "found env sub task w")
    case (Inl e)
    then show ?thesis
      by (simp add: Some dispatch_file_Some[OF Some] dispatch_file_body_raises)
  next
    case (Inr st)
    then show ?thesis
      by (simp add: Some dispatch_file_Some[OF Some] dispatch_file_body_returns[OF Inr])
  qed
qed

lemma dispatch_file_wake_ups:
  "new_wake_ups w (state_left (dispatch_file env task w)) =
     (case submissions w (task_sid task) of
        None \<Rightarrow> []
      | Some sub \<Rightarrow>
          (case found env sub task w of
             Inl e \<Rightarrow> []
           | Inr st \<Rightarrow> if all_finished (tables w (task_sid task)) then [sub_sid sub] else []))"
proof (cases "submissions w (task_sid task)")
  case None
  then show ?thesis by (simp add: dispatch_file_def new_wake_ups_def touch_frame)
next
  case (Some sub)
  show ?thesis
  proof (cases "found env sub task w")
    case (Inl e)
    then show ?thesis
      by (simp add: Some dispatch_file_Some[OF Some] dispatch_file_body_raises new_wake_ups_def
          touch_frame)
  next
    case (Inr st)
    then show ?thesis
      by (simp add: Some dispatch_file_Some[OF Some] dispatch_file_body_returns[OF Inr]
          new_wake_ups_def queues_push increment_frame touch_frame wake_ups_append)
  qed
qed

text \<open>
  Claim C9. A file task: \<^verbatim>\<open>dispatch_file\<close> leaves every dispatch table as it found it;
  processing the same task again in the state the first processing left, at any clock
  reading, again leaves the tables as they were, ends in the same way (it returns, or
  raises the same exception) and pushes the sid onto the submission queue exactly if
  the first processing did. A wake-up: \<^verbatim>\<open>dispatch_submission\<close> leaves every dispatch
  table as it found it; processing the same wake-up again in the state the first
  processing left ends in the same way and reaches the same call of
  \<^verbatim>\<open>finalize_submission\<close> (the same classifications and the same score) or again none;
  and the same holds at any later clock reading, when the clock readings are at least
  the service timeouts.
\<close>

theorem redelivery:
  "tables (state_left (dispatch_file env task w)) = tables w
   \<and> tables (state_left (dispatch_file env task ((state_left (dispatch_file env task w))\<lparr>clock := now\<rparr>))) =
       tables (state_left (dispatch_file env task w))
   \<and> raised (dispatch_file env task ((state_left (dispatch_file env task w))\<lparr>clock := now\<rparr>)) =
       raised (dispatch_file env task w)
   \<and> new_wake_ups ((state_left (dispatch_file env task w))\<lparr>clock := now\<rparr>)
        (state_left (dispatch_file env task ((state_left (dispatch_file env task w))\<lparr>clock := now\<rparr>))) =
       new_wake_ups w (state_left (dispatch_file env task w))
   \<and> tables (submission_state_left env sub w') = tables w'
   \<and> failure (dispatch_submission env sub (submission_state_left env sub w')) =
       failure (dispatch_submission env sub w')
   \<and> finalize_call (dispatch_submission env sub (submission_state_left env sub w')) =
       finalize_call (dispatch_submission env sub w')
   \<and> ((\<forall>s. service_timeout env s \<le> clock w') \<and> clock w' \<le> later \<longrightarrow>
        failure (dispatch_submission env sub ((submission_state_left env sub w')\<lparr>clock := later\<rparr>)) =
          failure (dispatch_submission env sub w')
        \<and> finalize_call (dispatch_submission env sub ((submission_state_left env sub w')\<lparr>clock := later\<rparr>)) =
          finalize_call (dispatch_submission env sub w'))"
proof -
  let ?w1 = "state_left (dispatch_file env task w)"
  let ?w2 = "?w1\<lparr>clock := now\<rparr>"
  have t1: "tables ?w1 = tables w" by (rule dispatch_file_tables)
  have t2: "tables (state_left (dispatch_file env task ?w2)) = tables ?w1"
    using dispatch_file_tables[of env task ?w2] by simp
  have s2: "submissions ?w2 = submissions w" by (simp add: dispatch_file_submissions)
  have f2: "found env sub' task ?w2 = found env sub' task w" for sub'
    by (rule found_tables) (simp add: t1)
  have r: "raised (dispatch_file env task ?w2) = raised (dispatch_file env task w)"
    by (simp only: dispatch_file_raised s2 f2)
  have tw: "tables ?w2 = tables w" by (simp add: t1)
  have n: "new_wake_ups ?w2 (state_left (dispatch_file env task ?w2)) = new_wake_ups w ?w1"
    by (simp only: dispatch_file_wake_ups s2 f2 tw)
  let ?v = "submission_state_left env sub w'"
  have v: "same_view w' ?v" by (rule submission_state_left_view)
  then have tv: "tables ?v = tables w'" by (simp add: same_view_def)
  have a1: "failure (dispatch_submission env sub ?v) = failure (dispatch_submission env sub w')"
    by (rule dispatch_submission_failure_again[OF v])
  have a2: "finalize_call (dispatch_submission env sub ?v) = finalize_call (dispatch_submission env sub w')"
    by (rule dispatch_submission_again[OF v])
  have l: "failure (dispatch_submission env sub (?v\<lparr>clock := later\<rparr>)) =
             failure (dispatch_submission env sub w')
         \<and> finalize_call (dispatch_submission env sub (?v\<lparr>clock := later\<rparr>)) =
             finalize_call (dispatch_submission env sub w')"
    if h: "\<forall>s. service_timeout env s \<le> clock w'" "clock w' \<le> later"
  proof -
    from v have c: "clock ?v = clock w'" by (simp add: same_view_def)
    have h': "\<forall>s. service_timeout env s \<le> clock ?v" "clock ?v \<le> later"
      using h by (simp_all add: c)
    have "failure (dispatch_submission env sub (?v\<lparr>clock := later\<rparr>)) =
          failure (dispatch_submission env sub ?v)"
      by (rule failure_eq) (rule dispatch_submission_later(1)[OF h'])
    moreover have "finalize_call (dispatch_submission env sub (?v\<lparr>clock := later\<rparr>)) =
          finalize_call (dispatch_submission env sub ?v)"
      by (rule dispatch_submission_later(2)[OF h'])
    ultimately show ?thesis by (simp only: a1 a2)
  qed
  from t1 t2 r n tv a1 a2 l show ?thesis by blast
qed

text \<open>
  The implication in C9 has its hypothesis met in scenario S1, once completed, at clock
  reading 1000 with timeouts of 30 seconds: the wake-up processed again at 2000
  finalizes with the same two classifications and the score 20. The task of \<open>F\<close>,
  delivered twice to the stored submission, raises both times and leaves the table empty.
\<close>

theorem redelivery_witness:
  "(\<forall>s. service_timeout ex_env s \<le> clock s1_completed) \<and> clock s1_completed \<le> 2000
   \<and> finalize_call (dispatch_submission ex_env submission_F
        ((submission_state_left ex_env submission_F s1_completed)\<lparr>clock := 2000\<rparr>)) =
       Some ([''U'', ''U''], Some 20)
   \<and> raised (dispatch_file ex_env ex_file_task
        ((state_left (dispatch_file ex_env ex_file_task submitted))\<lparr>clock := 1040\<rparr>)) =
       Some AttributeError
   \<and> tables (state_left (dispatch_file ex_env ex_file_task
        ((state_left (dispatch_file ex_env ex_file_task submitted))\<lparr>clock := 1040\<rparr>))) ''A'' =
       empty_table"
proof -
  have h: "(\<forall>s. service_timeout ex_env s \<le> clock s1_completed) \<and> clock s1_completed \<le> 2000"
    by (simp add: ex_env_def s1_completed_def ex_world_def)
  have s: "submissions submitted (task_sid ex_file_task) = Some submission_F"
    by (simp add: submitted_def ex_file_task_def ex_world_def)
  have r: "raised (dispatch_file ex_env ex_file_task submitted) = Some AttributeError"
    by (simp add: dispatch_file_Some[OF s] dispatch_file_body_raises[OF found_submitted])
  have t: "tables submitted ''A'' = empty_table"
    by (simp add: submitted_def ex_world_def)
  from redelivery[of ex_env ex_file_task submitted 1040 submission_F s1_completed 2000] h
  show ?thesis
    by (simp add: s1_completed_outcome r t)
qed

end
